theory Spec2Isabelle
  imports Main "HOL-Library.Word"
begin

unbundle bit_operations_syntax

text \<open>
  MediMind's chat client sends a question to the backend and reads the answer as a stream
  of lines \<open>data: <payload>\<close>. The function that does this, \<open>sendMessage\<close>, exists
  in four versions in the repository:
  \<^item> src/unnamed/part_002, the client with status banners, rate-limit texts and the
    \<open>hasError\<close> flag; it is the one modelled in full detail, under the source's names;
  \<^item> src/unnamed/part_000, the client with file management (\<open>_enhanced\<close> below);
  \<^item> src/medimind-main/frontend/src/App.original.jsx, the first client (\<open>_original\<close>);
  \<^item> src/unnamed/part_001, the intake client (\<open>_intake\<close>).

  \<open>sendMessage\<close> is a function from the React state and from what the network delivers
  (\<open>fetch\<close> rejecting or resolving, the chunks of the body, and how the reads end) to the
  React state it leaves. The platform functions it calls (\<open>TextDecoder\<close>, the string
  methods, \<open>JSON.parse\<close>) are modelled from their standards.
\<close>

section \<open>JavaScript strings\<close>

text \<open>
  A JavaScript string is a sequence of 16-bit code units. The chat client reads the
  response body as bytes (\<open>Uint8Array\<close> chunks) and turns them into strings with a
  \<open>TextDecoder\<close>.
\<close>

type_synonym byte = "8 word"
type_synonym jsstring = "16 word list"

text \<open>An ASCII literal of the source, as code units.\<close>

definition js :: "string \<Rightarrow> jsstring" where
  "js s = map (\<lambda>c. of_nat (of_char c)) s"

text \<open>\<open>s.startsWith(p)\<close>\<close>

fun startsWith :: "'a list \<Rightarrow> 'a list \<Rightarrow> bool" where
  "startsWith s [] = True"
| "startsWith [] (p # ps) = False"
| "startsWith (c # cs) (p # ps) = (c = p \<and> startsWith cs ps)"

text \<open>\<open>s.includes(sub)\<close>: \<open>sub\<close> occurs in \<open>s\<close> as a contiguous run of code units.\<close>

fun includes_str :: "'a list \<Rightarrow> 'a list \<Rightarrow> bool" where
  "includes_str [] sub = (sub = [])"
| "includes_str (c # cs) sub = (startsWith (c # cs) sub \<or> includes_str cs sub)"

text \<open>
  \<open>s.split(sep)\<close> for a separator of one code unit: the pieces between the separators,
  so \<open>"".split("\n")\<close> is \<open>[""]\<close> and \<open>"a\n".split("\n")\<close> is \<open>["a", ""]\<close>.
\<close>

fun split :: "'a \<Rightarrow> 'a list \<Rightarrow> 'a list list" where
  "split sep [] = [[]]"
| "split sep (c # cs) =
     (if c = sep then [] # split sep cs
      else (case split sep cs of [] \<Rightarrow> [[c]] | l # ls \<Rightarrow> (c # l) # ls))"

text \<open>\<open>ls.join(sep)\<close>\<close>

fun join :: "'a list \<Rightarrow> 'a list list \<Rightarrow> 'a list" where
  "join sep [] = []"
| "join sep [l] = l"
| "join sep (l # l' # ls) = l @ sep @ join sep (l' # ls)"

text \<open>
  \<open>s.replace(pat, rep)\<close> with a string pattern replaces the first occurrence only
  (\<open>rep\<close> without \<open>$\<close> patterns: the source passes \<open>""\<close>).
\<close>

fun replace :: "'a list \<Rightarrow> 'a list \<Rightarrow> 'a list \<Rightarrow> 'a list" where
  "replace pat rep [] = (if pat = [] then rep else [])"
| "replace pat rep (c # cs) =
     (if startsWith (c # cs) pat then rep @ drop (length pat) (c # cs)
      else c # replace pat rep cs)"

text \<open>
  \<open>s.trim()\<close> strips white space and line terminators from both ends: TAB, LF, VT, FF,
  CR, SP, NBSP, the Unicode space separators, LS, PS and the BOM.
\<close>

definition is_white :: "16 word \<Rightarrow> bool" where
  "is_white c =
     (c = 0x09 \<or> c = 0x0A \<or> c = 0x0B \<or> c = 0x0C \<or> c = 0x0D \<or> c = 0x20 \<or> c = 0xA0
      \<or> c = 0x1680 \<or> (0x2000 \<le> c \<and> c \<le> 0x200A) \<or> c = 0x2028 \<or> c = 0x2029
      \<or> c = 0x202F \<or> c = 0x205F \<or> c = 0x3000 \<or> c = 0xFEFF)"

definition trim :: "jsstring \<Rightarrow> jsstring" where
  "trim s = rev (dropWhile is_white (rev (dropWhile is_white s)))"

text \<open>\<open>x || ''\<close> on a string that may be undefined.\<close>

definition or_empty :: "jsstring option \<Rightarrow> jsstring" where
  "or_empty x = (case x of None \<Rightarrow> [] | Some s \<Rightarrow> s)"

text \<open>
  The left operand of \<open>+=\<close> with a string on the right: an undefined property reads as
  the text \<open>undefined\<close>.
\<close>

definition to_string :: "jsstring option \<Rightarrow> jsstring" where
  "to_string x = (case x of None \<Rightarrow> js ''undefined'' | Some s \<Rightarrow> s)"

text \<open>A string in a condition is true when it is defined and not empty.\<close>

definition truthy :: "jsstring option \<Rightarrow> bool" where
  "truthy x = (case x of None \<Rightarrow> False | Some s \<Rightarrow> s \<noteq> [])"


section \<open>TextDecoder\<close>

text \<open>
  \<open>new TextDecoder()\<close> is the UTF-8 decoder of the Encoding Standard in replacement
  mode. Its state is kept between calls of \<open>decode(value, {stream: true})\<close>; a call
  without \<open>stream\<close> starts from the initial state and flushes at its end.
\<close>

record utf8_decoder =
  code_point :: "32 word"
  bytes_seen :: nat
  bytes_needed :: nat
  lower_boundary :: byte
  upper_boundary :: byte
  bom_seen :: bool

definition new_TextDecoder :: utf8_decoder where
  "new_TextDecoder =
     \<lparr>code_point = 0, bytes_seen = 0, bytes_needed = 0,
      lower_boundary = 0x80, upper_boundary = 0xBF, bom_seen = False\<rparr>"

text \<open>The handler's step for a byte read when no sequence is open.\<close>

definition lead_byte :: "utf8_decoder \<Rightarrow> byte \<Rightarrow> utf8_decoder \<times> 32 word list" where
  "lead_byte d b =
     (if b \<le> 0x7F then (d, [ucast b])
      else if 0xC2 \<le> b \<and> b \<le> 0xDF then
        (d\<lparr>bytes_needed := 1, code_point := ucast (b AND 0x1F)\<rparr>, [])
      else if 0xE0 \<le> b \<and> b \<le> 0xEF then
        (d\<lparr>lower_boundary := (if b = 0xE0 then 0xA0 else lower_boundary d),
           upper_boundary := (if b = 0xED then 0x9F else upper_boundary d),
           bytes_needed := 2, code_point := ucast (b AND 0x0F)\<rparr>, [])
      else if 0xF0 \<le> b \<and> b \<le> 0xF4 then
        (d\<lparr>lower_boundary := (if b = 0xF0 then 0x90 else lower_boundary d),
           upper_boundary := (if b = 0xF4 then 0x8F else upper_boundary d),
           bytes_needed := 3, code_point := ucast (b AND 0x07)\<rparr>, [])
      else (d, [0xFFFD]))"

text \<open>
  One byte through the handler. A byte outside the boundaries of an open sequence ends
  it with U+FFFD and is read again as the first byte of a new sequence.
\<close>

definition handler :: "utf8_decoder \<Rightarrow> byte \<Rightarrow> utf8_decoder \<times> 32 word list" where
  "handler d b =
     (if bytes_needed d = 0 then lead_byte d b
      else if \<not> (lower_boundary d \<le> b \<and> b \<le> upper_boundary d) then
        (let (d', out) =
               lead_byte (d\<lparr>code_point := 0, bytes_needed := 0, bytes_seen := 0,
                            lower_boundary := 0x80, upper_boundary := 0xBF\<rparr>) b
         in (d', 0xFFFD # out))
      else
        (let d1 = d\<lparr>lower_boundary := 0x80, upper_boundary := 0xBF,
                     code_point := push_bit 6 (code_point d) OR ucast (b AND 0x3F),
                     bytes_seen := bytes_seen d + 1\<rparr>
         in if bytes_seen d1 \<noteq> bytes_needed d1 then (d1, [])
            else (d1\<lparr>code_point := 0, bytes_needed := 0, bytes_seen := 0\<rparr>,
                  [code_point d1])))"

text \<open>A scalar value as UTF-16 code units.\<close>

definition utf16 :: "32 word \<Rightarrow> jsstring" where
  "utf16 cp =
     (if cp < 0x10000 then [ucast cp]
      else [0xD800 + ucast (drop_bit 10 (cp - 0x10000)),
            0xDC00 + ucast ((cp - 0x10000) AND 0x3FF)])"

text \<open>
  The scalar values that reach the output string: the first one of a stream is dropped
  when it is the byte order mark U+FEFF.
\<close>

fun serialize :: "utf8_decoder \<Rightarrow> 32 word list \<Rightarrow> utf8_decoder \<times> jsstring" where
  "serialize d [] = (d, [])"
| "serialize d (cp # cps) =
     (if \<not> bom_seen d then
        (let (d', out) = serialize (d\<lparr>bom_seen := True\<rparr>) cps
         in (d', (if cp = 0xFEFF then [] else utf16 cp) @ out))
      else (let (d', out) = serialize d cps in (d', utf16 cp @ out)))"

text \<open>\<open>decoder.decode(value, {stream: true})\<close>: the new state and the decoded text.\<close>

fun decode_stream :: "utf8_decoder \<Rightarrow> byte list \<Rightarrow> utf8_decoder \<times> jsstring" where
  "decode_stream d [] = (d, [])"
| "decode_stream d (b # bs) =
     (let (d1, cps) = handler d b;
          (d2, out) = serialize d1 cps;
          (d3, rest) = decode_stream d2 bs
      in (d3, out @ rest))"

text \<open>
  \<open>decoder.decode(value)\<close>: every call starts afresh, and a sequence still open at the
  end of the chunk becomes U+FFFD.
\<close>

definition decode :: "byte list \<Rightarrow> jsstring" where
  "decode bs =
     (let (d, out) = decode_stream new_TextDecoder bs
      in if bytes_needed d \<noteq> 0 then out @ snd (serialize d [0xFFFD]) else out)"


section \<open>JSON.parse\<close>

text \<open>
  The values \<open>JSON.parse\<close> returns. A number is kept as its decimal literal,
  \<open>JNum m e\<close> for \<open>m\<close> times ten to the power \<open>e\<close>; the members of an object are
  kept in the order of the text.
\<close>

datatype json =
    JNull
  | JBool bool
  | JNum int int
  | JStr jsstring
  | JArr "json list"
  | JObj "(jsstring \<times> json) list"

definition json_white :: "16 word \<Rightarrow> bool" where
  "json_white c = (c = 0x20 \<or> c = 0x09 \<or> c = 0x0A \<or> c = 0x0D)"

definition is_digit :: "16 word \<Rightarrow> bool" where
  "is_digit c = (0x30 \<le> c \<and> c \<le> 0x39)"

definition digits_val :: "jsstring \<Rightarrow> nat" where
  "digits_val ds = foldl (\<lambda>a c. 10 * a + (unat c - 48)) 0 ds"

definition hex_val :: "16 word \<Rightarrow> nat option" where
  "hex_val c =
     (if 0x30 \<le> c \<and> c \<le> 0x39 then Some (unat c - 48)
      else if 0x41 \<le> c \<and> c \<le> 0x46 then Some (unat c - 55)
      else if 0x61 \<le> c \<and> c \<le> 0x66 then Some (unat c - 87)
      else None)"

text \<open>The character after a backslash, other than \<open>u\<close>.\<close>

definition escape_char :: "16 word \<Rightarrow> 16 word option" where
  "escape_char e =
     (if e = 0x22 \<or> e = 0x5C \<or> e = 0x2F then Some e
      else if e = 0x62 then Some 0x08
      else if e = 0x66 then Some 0x0C
      else if e = 0x6E then Some 0x0A
      else if e = 0x72 then Some 0x0D
      else if e = 0x74 then Some 0x09
      else None)"

text \<open>
  A string literal after its opening quote: the string and the text after the closing
  quote. Control characters must be escaped.
\<close>

fun parse_string :: "jsstring \<Rightarrow> jsstring \<Rightarrow> (jsstring \<times> jsstring) option" where
  "parse_string acc [] = None"
| "parse_string acc [c] = (if c = 0x22 then Some (rev acc, []) else None)"
| "parse_string acc (c # e # cs) =
     (if c = 0x22 then Some (rev acc, e # cs)
      else if c = 0x5C then
        (if e = 0x75 then
           (case cs of
              h1 # h2 # h3 # h4 # r \<Rightarrow>
                (case hex_val h1 of None \<Rightarrow> None | Some a \<Rightarrow>
                 case hex_val h2 of None \<Rightarrow> None | Some b \<Rightarrow>
                 case hex_val h3 of None \<Rightarrow> None | Some c' \<Rightarrow>
                 case hex_val h4 of None \<Rightarrow> None | Some d \<Rightarrow>
                   parse_string (of_nat (((a * 16 + b) * 16 + c') * 16 + d) # acc) r)
            | _ \<Rightarrow> None)
         else (case escape_char e of
                 None \<Rightarrow> None
               | Some x \<Rightarrow> parse_string (x # acc) cs))
      else if c < 0x20 then None
      else parse_string (c # acc) (e # cs))"

text \<open>
  A number literal: an optional minus, an integer part without a leading zero, an
  optional fraction and an optional exponent.
\<close>

definition parse_number :: "jsstring \<Rightarrow> (json \<times> jsstring) option" where
  "parse_number s =
     (let neg = startsWith s [0x2D];
          s1 = (if neg then tl s else s);
          ds = takeWhile is_digit s1;
          s2 = dropWhile is_digit s1
      in if ds = [] \<or> (hd ds = 0x30 \<and> 1 < length ds) then None
         else
          (let has_frac = startsWith s2 [0x2E];
               fs = (if has_frac then takeWhile is_digit (tl s2) else []);
               s3 = (if has_frac then dropWhile is_digit (tl s2) else s2)
           in if has_frac \<and> fs = [] then None
              else
               (let has_exp = (startsWith s3 [0x65] \<or> startsWith s3 [0x45]);
                    s4 = (if has_exp then tl s3 else s3);
                    eneg = (has_exp \<and> startsWith s4 [0x2D]);
                    s5 = (if has_exp \<and> (startsWith s4 [0x2D] \<or> startsWith s4 [0x2B])
                          then tl s4 else s4);
                    es = (if has_exp then takeWhile is_digit s5 else []);
                    s6 = (if has_exp then dropWhile is_digit s5 else s3)
                in if has_exp \<and> es = [] then None
                   else Some (JNum ((if neg then - 1 else 1) * int (digits_val (ds @ fs)))
                                   ((if eneg then - 1 else 1) * int (digits_val es)
                                      - int (length fs)),
                              s6))))"

text \<open>
  A value that is no object and no array, at its first character: a string, \<open>true\<close>,
  \<open>false\<close>, \<open>null\<close> or a number.
\<close>

definition parse_scalar :: "jsstring \<Rightarrow> (json \<times> jsstring) option" where
  "parse_scalar s =
     (if startsWith s [0x22] then
        (case parse_string [] (tl s) of
           None \<Rightarrow> None
         | Some (str, r) \<Rightarrow> Some (JStr str, r))
      else if startsWith s (js ''true'') then Some (JBool True, drop 4 s)
      else if startsWith s (js ''false'') then Some (JBool False, drop 5 s)
      else if startsWith s (js ''null'') then Some (JNull, drop 4 s)
      else if startsWith s [0x2D] \<or> (s \<noteq> [] \<and> is_digit (hd s)) then parse_number s
      else None)"

text \<open>
  A value and the text after it. The first argument bounds the number of nested calls;
  every call that uses one of it has read at least one character since the call before,
  so the length of the text is always enough (\<open>fuel_enough\<close> below).
\<close>

fun parse_value :: "nat \<Rightarrow> jsstring \<Rightarrow> (json \<times> jsstring) option"
  and parse_elements :: "nat \<Rightarrow> json list \<Rightarrow> jsstring \<Rightarrow> (json \<times> jsstring) option"
  and parse_members ::
    "nat \<Rightarrow> (jsstring \<times> json) list \<Rightarrow> jsstring \<Rightarrow> (json \<times> jsstring) option"
where
  "parse_value 0 s = None"
| "parse_value (Suc n) s =
     (case dropWhile json_white s of
        [] \<Rightarrow> None
      | c # cs \<Rightarrow>
          if c = 0x7B then
            (case dropWhile json_white cs of
               [] \<Rightarrow> None
             | d # ds \<Rightarrow> if d = 0x7D then Some (JObj [], ds) else parse_members n [] (d # ds))
          else if c = 0x5B then
            (case dropWhile json_white cs of
               [] \<Rightarrow> None
             | d # ds \<Rightarrow> if d = 0x5D then Some (JArr [], ds) else parse_elements n [] (d # ds))
          else parse_scalar (c # cs))"
| "parse_elements 0 acc s = None"
| "parse_elements (Suc n) acc s =
     (case parse_value n s of
        None \<Rightarrow> None
      | Some (v, r) \<Rightarrow>
          (case dropWhile json_white r of
             [] \<Rightarrow> None
           | c # cs \<Rightarrow>
               if c = 0x2C then parse_elements n (v # acc) cs
               else if c = 0x5D then Some (JArr (rev (v # acc)), cs)
               else None))"
| "parse_members 0 acc s = None"
| "parse_members (Suc n) acc s =
     (case dropWhile json_white s of
        [] \<Rightarrow> None
      | q # qs \<Rightarrow>
          if q \<noteq> 0x22 then None
          else
            (case parse_string [] qs of
               None \<Rightarrow> None
             | Some (k, r) \<Rightarrow>
                 (case dropWhile json_white r of
                    [] \<Rightarrow> None
                  | c # cs \<Rightarrow>
                      if c \<noteq> 0x3A then None
                      else
                        (case parse_value n cs of
                           None \<Rightarrow> None
                         | Some (v, r') \<Rightarrow>
                             (case dropWhile json_white r' of
                                [] \<Rightarrow> None
                              | c' # cs' \<Rightarrow>
                                  if c' = 0x2C then parse_members n ((k, v) # acc) cs'
                                  else if c' = 0x7D then Some (JObj (rev ((k, v) # acc)), cs')
                                  else None)))))"

text \<open>\<open>JSON.parse(text)\<close>; \<open>None\<close> is the SyntaxError it throws.\<close>

definition JSON_parse :: "jsstring \<Rightarrow> json option" where
  "JSON_parse s =
     (case parse_value (Suc (length s)) s of
        None \<Rightarrow> None
      | Some (v, r) \<Rightarrow> if dropWhile json_white r = [] then Some v else None)"

text \<open>
  Reading a property of a parsed value: of two members with one name the later one
  counts; a number, a string, a boolean and an array have none of the properties the
  client reads; \<open>None\<close> is \<open>undefined\<close>.
\<close>

fun property :: "json \<Rightarrow> jsstring \<Rightarrow> json option" where
  "property (JObj kvs) k = map_of (rev kvs) k"
| "property _ k = None"


section \<open>Payloads of the event stream\<close>

text \<open>
  The fields the client reads from a parsed payload, with the types of the wire
  contract: \<open>error\<close>, \<open>status\<close>, \<open>message\<close> and \<open>token\<close> are strings, \<open>final\<close> is an
  object with a string \<open>answer\<close>, an array of strings \<open>files_analyzed\<close> and an integer
  \<open>file_count\<close> (and the strings \<open>plan\<close> and \<open>context\<close>, which only App.original.jsx
  reads). A field that is absent reads as \<open>undefined\<close>, here \<open>None\<close>.
\<close>

record final =
  final_answer :: "jsstring option"
  files_analyzed :: "jsstring list option"
  file_count :: "int option"
  final_plan :: "jsstring option"
  final_context :: "jsstring option"

record payload =
  error :: "jsstring option"
  status :: "jsstring option"
  message :: "jsstring option"
  token :: "jsstring option"
  final :: "final option"

text \<open>
  Reading a field at its type. The outer \<open>None\<close> marks a value of another type: the
  client would then compute with JavaScript's conversions between types, which are not
  modelled.
\<close>

definition string_field :: "json \<Rightarrow> jsstring \<Rightarrow> jsstring option option" where
  "string_field j k =
     (case property j k of
        None \<Rightarrow> Some None
      | Some (JStr s) \<Rightarrow> Some (Some s)
      | Some _ \<Rightarrow> None)"

fun strings_of :: "json list \<Rightarrow> jsstring list option" where
  "strings_of [] = Some []"
| "strings_of (JStr s # vs) = map_option ((#) s) (strings_of vs)"
| "strings_of (_ # vs) = None"

definition strings_field :: "json \<Rightarrow> jsstring \<Rightarrow> jsstring list option option" where
  "strings_field j k =
     (case property j k of
        None \<Rightarrow> Some None
      | Some (JArr vs) \<Rightarrow> map_option Some (strings_of vs)
      | Some _ \<Rightarrow> None)"

text \<open>An integer that a JavaScript number holds exactly.\<close>

definition integer_field :: "json \<Rightarrow> jsstring \<Rightarrow> int option option" where
  "integer_field j k =
     (case property j k of
        None \<Rightarrow> Some None
      | Some (JNum m e) \<Rightarrow>
          if e = 0 \<and> \<bar>m\<bar> \<le> 9007199254740992 then Some (Some m) else None
      | Some _ \<Rightarrow> None)"

definition final_field :: "json \<Rightarrow> final option option" where
  "final_field j =
     (case property j (js ''final'') of
        None \<Rightarrow> Some None
      | Some (JObj kvs) \<Rightarrow>
          (case string_field (JObj kvs) (js ''answer'') of None \<Rightarrow> None | Some a \<Rightarrow>
           case strings_field (JObj kvs) (js ''files_analyzed'') of None \<Rightarrow> None | Some fs \<Rightarrow>
           case integer_field (JObj kvs) (js ''file_count'') of None \<Rightarrow> None | Some n \<Rightarrow>
           case string_field (JObj kvs) (js ''plan'') of None \<Rightarrow> None | Some pl \<Rightarrow>
           case string_field (JObj kvs) (js ''context'') of None \<Rightarrow> None | Some cx \<Rightarrow>
             Some (Some \<lparr>final_answer = a, files_analyzed = fs, file_count = n,
                          final_plan = pl, final_context = cx\<rparr>))
      | Some _ \<Rightarrow> None)"

definition typed :: "json \<Rightarrow> payload option" where
  "typed j =
     (case string_field j (js ''error'') of None \<Rightarrow> None | Some e \<Rightarrow>
      case string_field j (js ''status'') of None \<Rightarrow> None | Some s \<Rightarrow>
      case string_field j (js ''message'') of None \<Rightarrow> None | Some m \<Rightarrow>
      case string_field j (js ''token'') of None \<Rightarrow> None | Some t \<Rightarrow>
      case final_field j of None \<Rightarrow> None | Some f \<Rightarrow>
        Some \<lparr>error = e, status = s, message = m, token = t, final = f\<rparr>)"

text \<open>
  What one line of a decoded chunk is to the loop of \<open>sendMessage\<close>:
  \<^item> \<open>NotEvent\<close>: the line does not start with \<open>data:\<close> and is skipped;
  \<^item> \<open>Done\<close>: the payload is empty or is \<open>[DONE]\<close>;
  \<^item> \<open>Malformed\<close>: \<open>JSON.parse\<close> throws, or returns \<open>null\<close>, so that reading
    \<open>parsed.error\<close> throws; both end in the \<open>catch\<close> around the parsing;
  \<^item> \<open>Parsed p\<close>: a payload with fields of the types above;
  \<^item> \<open>Untyped\<close>: a payload with a field of another type.
\<close>

datatype event = NotEvent | Done | Malformed | Parsed payload | Untyped

definition classify :: "jsstring \<Rightarrow> event" where
  "classify line =
     (if \<not> startsWith line (js ''data:'') then NotEvent
      else
        (let payload = trim (replace (js ''data:'') [] line)
         in if payload = [] \<or> payload = js ''[DONE]'' then Done
            else
              (case JSON_parse payload of
                 None \<Rightarrow> Malformed
               | Some JNull \<Rightarrow> Malformed
               | Some parsed \<Rightarrow>
                   (case typed parsed of
                      None \<Rightarrow> Untyped
                    | Some p \<Rightarrow> Parsed p))))"


section \<open>The conversation\<close>

text \<open>
  The objects of the \<open>messages\<close> array. A user message is \<open>{role, content}\<close>; the
  assistant's message is \<open>{role, answer, streaming}\<close>, later with \<open>filesAnalyzed\<close> and
  \<open>fileCount\<close> (with \<open>plan\<close> and \<open>context\<close> in App.original.jsx, and with its text in
  \<open>content\<close> in the client without file management). A property an object does not
  have is \<open>None\<close>.
\<close>

datatype role = User | Assistant

record message =
  role :: role
  content :: "jsstring option"
  answer :: "jsstring option"
  plan :: "jsstring option"
  context' :: "jsstring option"
  streaming :: "bool option"
  filesAnalyzed :: "jsstring list option"
  fileCount :: "int option"

text \<open>\<open>{ role: "user", content: question }\<close>\<close>

definition user_message :: "jsstring \<Rightarrow> message" where
  "user_message question =
     \<lparr>role = User, content = Some question, answer = None, plan = None, context' = None,
      streaming = None, filesAnalyzed = None, fileCount = None\<rparr>"

text \<open>\<open>{ role: "assistant", answer: text, streaming: flag }\<close>\<close>

definition assistant_message :: "jsstring \<Rightarrow> bool \<Rightarrow> message" where
  "assistant_message text flag =
     \<lparr>role = Assistant, content = None, answer = Some text, plan = None, context' = None,
      streaming = Some flag, filesAnalyzed = None, fileCount = None\<rparr>"

text \<open>
  The React state of the component that \<open>sendMessage\<close> reads and writes, and the local
  variable \<open>hasError\<close> of one call. Every updater passed to \<open>setMessages\<close> is applied
  once, in the order of the calls.
\<close>

record state =
  messages :: "message list"
  input :: jsstring
  loading :: bool
  hasError :: bool

text \<open>
  \<open>updated[updated.length - 1] = m\<close> and \<open>updated[updated.length - 1].field = v\<close> on the
  copy of the array. On an empty array the index is -1: the assignment of an object adds
  a property named \<open>-1\<close> and no element, and the updaters that write a field are guarded
  by \<open>updated.length > 0\<close>.
\<close>

definition update_last :: "('a \<Rightarrow> 'a) \<Rightarrow> 'a list \<Rightarrow> 'a list" where
  "update_last f xs = (if xs = [] then [] else butlast xs @ [f (last xs)])"


section \<open>The chat client with status banners (src/unnamed/part_002)\<close>

subsection \<open>The texts of the source\<close>

text \<open>The emoji of the banners, as code units, and the line feed.\<close>

definition page :: jsstring where "page = [0xD83D, 0xDCC4]"
definition cycle :: jsstring where "cycle = [0xD83D, 0xDD04]"
definition memo :: jsstring where "memo = [0xD83D, 0xDCDD]"
definition link :: jsstring where "link = [0xD83D, 0xDD17]"
definition sparkles :: jsstring where "sparkles = [0x2728]"
definition warning :: jsstring where "warning = [0x26A0, 0xFE0F]"
definition nl :: jsstring where "nl = [0x0A]"

definition summarizing_chunk :: jsstring where
  "summarizing_chunk = memo @ js '' Summarizing chunk''"

definition rate_limit_tokens :: jsstring where
  "rate_limit_tokens = warning @ js '' Rate limit reached. The API has exceeded its token limit. Please wait 30-60 seconds and try again.''"

definition rate_limit_wait :: jsstring where
  "rate_limit_wait = warning @ js '' Rate limit reached. Please wait 30-60 seconds and try again.''"

definition connecting :: jsstring where
  "connecting = js ''Error connecting to backend. Make sure the server is running.''"

subsection \<open>The branches of the loop body\<close>

text \<open>The text shown for \<open>parsed.error\<close>.\<close>

definition errorMessage :: "jsstring \<Rightarrow> jsstring" where
  "errorMessage e =
     (if includes_str e (js ''429'') \<or> includes_str e (js ''Rate limit'')
         \<or> includes_str e (js ''rate limit'') then rate_limit_tokens
      else if includes_str e (js ''Error code: 429'') then rate_limit_wait
      else e)"

text \<open>\<open>if (parsed.error) { ... break; }\<close>\<close>

definition on_error :: "jsstring \<Rightarrow> state \<Rightarrow> state" where
  "on_error e st =
     st\<lparr>hasError := True,
        messages := update_last (\<lambda>_. assistant_message (errorMessage e) False) (messages st),
        loading := False\<rparr>"

text \<open>The updater of \<open>if (parsed.status)\<close>, on the last message.\<close>

definition status_updater :: "jsstring \<Rightarrow> jsstring option \<Rightarrow> message \<Rightarrow> message" where
  "status_updater phase msg m =
     (let statusMsg = or_empty msg;
          currentAnswer = or_empty (answer m);
          m' =
            (if phase = js ''chunking'' then
               m\<lparr>answer := Some (page @ js '' '' @ statusMsg @ nl)\<rparr>
             else if phase = js ''processing'' then
               m\<lparr>answer := Some (page @ js '' Document is large. Processing in chunks...'' @ nl
                                  @ cycle @ js '' '' @ statusMsg @ nl)\<rparr>
             else if phase = js ''chunk'' then
               (let progressMsg = memo @ js '' '' @ statusMsg
                in if \<not> includes_str currentAnswer summarizing_chunk then
                     m\<lparr>answer := Some (currentAnswer @ progressMsg @ nl)\<rparr>
                   else
                     (let lines = split 0x0A currentAnswer;
                          newLines = filter (\<lambda>l. \<not> includes_str l summarizing_chunk) lines
                                       @ [progressMsg]
                      in m\<lparr>answer := Some (join nl newLines @ nl)\<rparr>))
             else if phase = js ''combining'' then
               m\<lparr>answer := Some (currentAnswer @ link @ js '' '' @ statusMsg @ nl)\<rparr>
             else if phase = js ''finalizing'' then
               m\<lparr>answer := Some (currentAnswer @ sparkles @ js '' '' @ statusMsg @ nl)\<rparr>
             else if phase = js ''error'' then
               m\<lparr>answer := Some (currentAnswer @ warning @ js '' '' @ statusMsg @ nl)\<rparr>
             else m)
      in m'\<lparr>streaming := Some True\<rparr>)"

text \<open>The updater of \<open>if (parsed.token)\<close>, on the last message.\<close>

definition token_updater :: "jsstring \<Rightarrow> message \<Rightarrow> message" where
  "token_updater tok m =
     (let currentAnswer = or_empty (answer m);
          m' =
            (if includes_str currentAnswer page \<or> includes_str currentAnswer cycle
                \<or> includes_str currentAnswer memo then
               (if \<not> includes_str currentAnswer (trim tok) then m\<lparr>answer := Some tok\<rparr>
                else m\<lparr>answer := Some (to_string (answer m) @ tok)\<rparr>)
             else m\<lparr>answer := Some (to_string (answer m) @ tok)\<rparr>)
      in m'\<lparr>streaming := Some True\<rparr>)"

text \<open>The updater of \<open>if (parsed.final)\<close>, on the last message.\<close>

definition final_updater :: "final \<Rightarrow> message \<Rightarrow> message" where
  "final_updater f m =
     m\<lparr>answer := final_answer f,
       filesAnalyzed := Some (case files_analyzed f of None \<Rightarrow> [] | Some fs \<Rightarrow> fs),
       fileCount := Some (case file_count f of None \<Rightarrow> 0 | Some n \<Rightarrow> n),
       streaming := Some False\<rparr>"

definition on_status :: "payload \<Rightarrow> state \<Rightarrow> state" where
  "on_status p st =
     (if truthy (status p)
      then st\<lparr>messages :=
                update_last (status_updater (or_empty (status p)) (message p)) (messages st)\<rparr>
      else st)"

definition on_token :: "payload \<Rightarrow> state \<Rightarrow> state" where
  "on_token p st =
     (if truthy (token p)
      then st\<lparr>messages := update_last (token_updater (or_empty (token p))) (messages st)\<rparr>
      else st)"

definition on_final :: "payload \<Rightarrow> state \<Rightarrow> state" where
  "on_final p st =
     (case final p of
        None \<Rightarrow> st
      | Some f \<Rightarrow> st\<lparr>messages := update_last (final_updater f) (messages st),
                      loading := False\<rparr>)"

text \<open>
  The body of the \<open>try\<close> for a parsed payload: the state after it, and whether it left
  the \<open>for\<close> loop with \<open>break\<close>. The four conditions are tested one after the other,
  and only the branch of \<open>error\<close> leaves.
\<close>

definition handle :: "payload \<Rightarrow> state \<Rightarrow> state \<times> bool" where
  "handle p st =
     (if truthy (error p) then (on_error (or_empty (error p)) st, True)
      else (on_final p (on_token p (on_status p st)), False))"

text \<open>\<open>if (!hasError) setLoading(false)\<close>\<close>

definition stop_loading :: "state \<Rightarrow> state" where
  "stop_loading st = (if \<not> hasError st then st\<lparr>loading := False\<rparr> else st)"

text \<open>
  One line of a chunk. \<open>None\<close>: the payload has a field of a type that is not
  modelled.
\<close>

fun step :: "event \<Rightarrow> state \<Rightarrow> (state \<times> bool) option" where
  "step NotEvent st = Some (st, False)"
| "step Done st = Some (stop_loading st, False)"
| "step Malformed st = Some (st, False)"
| "step (Parsed p) st = Some (handle p st)"
| "step Untyped st = None"

text \<open>\<open>for (const line of lines) { ... }\<close>, on the classified lines.\<close>

fun for_lines :: "event list \<Rightarrow> state \<Rightarrow> state option" where
  "for_lines [] st = Some st"
| "for_lines (e # es) st =
     (case step e st of
        None \<Rightarrow> None
      | Some (st', brk) \<Rightarrow> if brk then Some st' else for_lines es st')"

subsection \<open>Reading the response\<close>

text \<open>
  How the reads of a response body end: \<open>reader.read()\<close> reports \<open>done\<close>, or it rejects
  because the connection broke.
\<close>

datatype ending = Closed | Aborted

text \<open>The lines of a chunk: \<open>decoder.decode(value, { stream: true }).split("\n")\<close>.\<close>

definition chunk_events :: "jsstring \<Rightarrow> event list" where
  "chunk_events chunk = map classify (split 0x0A chunk)"

text \<open>
  \<open>while (true) { ... }\<close> over the chunks that \<open>reader.read()\<close> delivers. The result
  is the state and whether an exception left the loop.
\<close>

fun read_loop ::
  "utf8_decoder \<Rightarrow> byte list list \<Rightarrow> ending \<Rightarrow> state \<Rightarrow> (state \<times> bool) option" where
  "read_loop d [] Closed st = Some (stop_loading st, False)"
| "read_loop d [] Aborted st = Some (st, True)"
| "read_loop d (v # vs) e st =
     (let (d', chunk) = decode_stream d v
      in case for_lines (chunk_events chunk) st of
           None \<Rightarrow> None
         | Some st' \<Rightarrow> read_loop d' vs e st')"

text \<open>
  What \<open>fetch\<close> gives: it rejects (no connection), or it resolves to a response with
  its \<open>ok\<close> flag and a body.
\<close>

datatype response = Rejected | Response bool "byte list list" ending

text \<open>The \<open>catch\<close> of \<open>sendMessage\<close>.\<close>

definition on_exception :: "state \<Rightarrow> state" where
  "on_exception st =
     st\<lparr>messages := update_last (\<lambda>_. assistant_message connecting False) (messages st),
        loading := False\<rparr>"

definition sendMessage :: "response \<Rightarrow> state \<Rightarrow> state option" where
  "sendMessage res st =
     (if trim (input st) = [] \<or> loading st then Some st
      else
        (let question = input st;
             st1 = st\<lparr>input := [], loading := True,
                      messages := messages st @ [user_message question, assistant_message [] True],
                      hasError := False\<rparr>
         in case res of
              Rejected \<Rightarrow> Some (on_exception st1)
            | Response ok body e \<Rightarrow>
                if \<not> ok then Some (on_exception st1)
                else
                  (case read_loop new_TextDecoder body e st1 of
                     None \<Rightarrow> None
                   | Some (st2, thrown) \<Rightarrow>
                       Some (if thrown then on_exception st2 else st2))))"


section \<open>The chat client with file management (src/unnamed/part_000)\<close>

text \<open>
  The loop body of this client tests \<open>token\<close>, \<open>final\<close> and \<open>error\<close> in that order, and
  no branch leaves the loop. Its updater for a token reads \<open>updated[updated.length -
  1].answer\<close> without a guard, which throws on an empty array inside React; that is
  \<open>None\<close> here.
\<close>

definition handle_enhanced :: "payload \<Rightarrow> state \<Rightarrow> state option" where
  "handle_enhanced p st =
     (if truthy (token p) \<and> messages st = [] then None
      else
        (let st1 = (if truthy (token p)
                    then st\<lparr>messages :=
                           update_last (\<lambda>m. m\<lparr>answer := Some (to_string (answer m) @ or_empty (token p))\<rparr>)
                             (messages st)\<rparr>
                    else st);
             st2 = (case final p of
                      None \<Rightarrow> st1
                    | Some f \<Rightarrow> st1\<lparr>messages := update_last (final_updater f) (messages st1)\<rparr>);
             st3 = (if truthy (error p)
                    then st2\<lparr>messages :=
                           update_last (\<lambda>_. assistant_message (js ''Error: '' @ or_empty (error p)) False)
                             (messages st2),
                           loading := False\<rparr>
                    else st2)
         in Some st3))"

fun step_enhanced :: "event \<Rightarrow> state \<Rightarrow> state option" where
  "step_enhanced NotEvent st = Some st"
| "step_enhanced Done st = Some (st\<lparr>loading := False\<rparr>)"
| "step_enhanced Malformed st = Some st"
| "step_enhanced (Parsed p) st = handle_enhanced p st"
| "step_enhanced Untyped st = None"

fun for_lines_enhanced :: "event list \<Rightarrow> state \<Rightarrow> state option" where
  "for_lines_enhanced [] st = Some st"
| "for_lines_enhanced (e # es) st =
     (case step_enhanced e st of
        None \<Rightarrow> None
      | Some st' \<Rightarrow> for_lines_enhanced es st')"

text \<open>
  The lines of a chunk where the decoder is called without \<open>stream\<close>:
  \<open>decoder.decode(value).split("\n")\<close>.
\<close>

definition chunk_events_flushed :: "byte list \<Rightarrow> event list" where
  "chunk_events_flushed v = map classify (split 0x0A (decode v))"

fun read_loop_enhanced :: "byte list list \<Rightarrow> ending \<Rightarrow> state \<Rightarrow> (state \<times> bool) option" where
  "read_loop_enhanced [] Closed st = Some (st, False)"
| "read_loop_enhanced [] Aborted st = Some (st, True)"
| "read_loop_enhanced (v # vs) e st =
     (case for_lines_enhanced (chunk_events_flushed v) st of
        None \<Rightarrow> None
      | Some st' \<Rightarrow> read_loop_enhanced vs e st')"

definition sendMessage_enhanced :: "response \<Rightarrow> state \<Rightarrow> state option" where
  "sendMessage_enhanced res st =
     (if trim (input st) = [] \<or> loading st then Some st
      else
        (let question = input st;
             st1 = st\<lparr>input := [], loading := True,
                      messages := messages st @ [user_message question, assistant_message [] True]\<rparr>
         in case res of
              Rejected \<Rightarrow> Some (on_exception st1)
            | Response ok body e \<Rightarrow>
                (case read_loop_enhanced body e st1 of
                   None \<Rightarrow> None
                 | Some (st2, thrown) \<Rightarrow>
                     Some (if thrown then on_exception st2 else st2))))"


section \<open>The first chat client (App.original.jsx)\<close>

text \<open>
  The assistant's message has the fields \<open>answer\<close>, \<open>plan\<close> and \<open>context\<close>. The call
  of \<open>JSON.parse\<close> stands in no \<open>try\<close> of its own: what it throws, and what reading a
  field of \<open>null\<close> throws, leaves both loops and reaches the \<open>catch\<close> of \<open>sendMessage\<close>.
\<close>

definition original_message :: "jsstring \<Rightarrow> bool \<Rightarrow> message" where
  "original_message text flag =
     \<lparr>role = Assistant, content = None, answer = Some text, plan = Some [], context' = Some [],
      streaming = Some flag, filesAnalyzed = None, fileCount = None\<rparr>"

definition final_updater_original :: "final \<Rightarrow> message \<Rightarrow> message" where
  "final_updater_original f m =
     m\<lparr>answer := final_answer f,
       plan := Some (or_empty (final_plan f)),
       context' := Some (or_empty (final_context f)),
       streaming := Some False\<rparr>"

definition handle_original :: "payload \<Rightarrow> state \<Rightarrow> state option" where
  "handle_original p st =
     (if truthy (token p) \<and> messages st = [] then None
      else
        (let st1 = (if truthy (token p)
                    then st\<lparr>messages :=
                           update_last (\<lambda>m. m\<lparr>answer := Some (to_string (answer m) @ or_empty (token p))\<rparr>)
                             (messages st)\<rparr>
                    else st);
             st2 = (case final p of
                      None \<Rightarrow> st1
                    | Some f \<Rightarrow>
                        st1\<lparr>messages := update_last (final_updater_original f) (messages st1)\<rparr>)
         in Some st2))"

text \<open>One line: the state, and whether an exception was thrown.\<close>

fun step_original :: "event \<Rightarrow> state \<Rightarrow> (state \<times> bool) option" where
  "step_original NotEvent st = Some (st, False)"
| "step_original Done st = Some (st\<lparr>loading := False\<rparr>, False)"
| "step_original Malformed st = Some (st, True)"
| "step_original (Parsed p) st = map_option (\<lambda>st'. (st', False)) (handle_original p st)"
| "step_original Untyped st = None"

fun for_lines_original :: "event list \<Rightarrow> state \<Rightarrow> (state \<times> bool) option" where
  "for_lines_original [] st = Some (st, False)"
| "for_lines_original (e # es) st =
     (case step_original e st of
        None \<Rightarrow> None
      | Some (st', thrown) \<Rightarrow> if thrown then Some (st', True) else for_lines_original es st')"

fun read_loop_original :: "byte list list \<Rightarrow> ending \<Rightarrow> state \<Rightarrow> (state \<times> bool) option" where
  "read_loop_original [] Closed st = Some (st, False)"
| "read_loop_original [] Aborted st = Some (st, True)"
| "read_loop_original (v # vs) e st =
     (case for_lines_original (chunk_events_flushed v) st of
        None \<Rightarrow> None
      | Some (st', thrown) \<Rightarrow>
          if thrown then Some (st', True) else read_loop_original vs e st')"

definition on_exception_original :: "state \<Rightarrow> state" where
  "on_exception_original st =
     st\<lparr>messages :=
          update_last (\<lambda>_. original_message (js ''Error connecting to backend.'') False)
            (messages st),
        loading := False\<rparr>"

definition sendMessage_original :: "response \<Rightarrow> state \<Rightarrow> state option" where
  "sendMessage_original res st =
     (if trim (input st) = [] \<or> loading st then Some st
      else
        (let question = input st;
             st1 = st\<lparr>input := [], loading := True,
                      messages := messages st @ [user_message question, original_message [] True]\<rparr>
         in case res of
              Rejected \<Rightarrow> Some (on_exception_original st1)
            | Response ok body e \<Rightarrow>
                (case read_loop_original body e st1 of
                   None \<Rightarrow> None
                 | Some (st2, thrown) \<Rightarrow>
                     Some (if thrown then on_exception_original st2 else st2))))"


section \<open>The intake client (src/unnamed/part_001)\<close>

text \<open>
  \<open>sendMessage(questionText)\<close> is called with the trimmed input, or with \<open>""\<close> after an
  upload. The assistant's text is in \<open>content\<close>. The loop is the one of
  App.original.jsx; the \<open>catch\<close> appends a message.
\<close>

definition intake_message :: "jsstring \<Rightarrow> bool \<Rightarrow> message" where
  "intake_message text flag =
     \<lparr>role = Assistant, content = Some text, answer = None, plan = None, context' = None,
      streaming = Some flag, filesAnalyzed = None, fileCount = None\<rparr>"

definition handle_intake :: "payload \<Rightarrow> state \<Rightarrow> state option" where
  "handle_intake p st =
     (if truthy (token p) \<and> messages st = [] then None
      else
        (let st1 = (if truthy (token p)
                    then st\<lparr>messages :=
                           update_last (\<lambda>m. m\<lparr>content := Some (to_string (content m) @ or_empty (token p))\<rparr>)
                             (messages st)\<rparr>
                    else st);
             st2 = (case final p of
                      None \<Rightarrow> st1
                    | Some f \<Rightarrow>
                        st1\<lparr>messages :=
                              update_last
                                (\<lambda>_. \<lparr>role = Assistant, content = final_answer f, answer = None,
                                       plan = None, context' = None, streaming = Some False,
                                       filesAnalyzed = None, fileCount = None\<rparr>)
                                (messages st1)\<rparr>)
         in Some st2))"

fun step_intake :: "event \<Rightarrow> state \<Rightarrow> (state \<times> bool) option" where
  "step_intake NotEvent st = Some (st, False)"
| "step_intake Done st = Some (st\<lparr>loading := False\<rparr>, False)"
| "step_intake Malformed st = Some (st, True)"
| "step_intake (Parsed p) st = map_option (\<lambda>st'. (st', False)) (handle_intake p st)"
| "step_intake Untyped st = None"

fun for_lines_intake :: "event list \<Rightarrow> state \<Rightarrow> (state \<times> bool) option" where
  "for_lines_intake [] st = Some (st, False)"
| "for_lines_intake (e # es) st =
     (case step_intake e st of
        None \<Rightarrow> None
      | Some (st', thrown) \<Rightarrow> if thrown then Some (st', True) else for_lines_intake es st')"

fun read_loop_intake :: "byte list list \<Rightarrow> ending \<Rightarrow> state \<Rightarrow> (state \<times> bool) option" where
  "read_loop_intake [] Closed st = Some (st, False)"
| "read_loop_intake [] Aborted st = Some (st, True)"
| "read_loop_intake (v # vs) e st =
     (case for_lines_intake (chunk_events_flushed v) st of
        None \<Rightarrow> None
      | Some (st', thrown) \<Rightarrow>
          if thrown then Some (st', True) else read_loop_intake vs e st')"

text \<open>The \<open>catch\<close>: \<open>setMessages((prev) => [...prev, { ... }])\<close>.\<close>

definition on_exception_intake :: "state \<Rightarrow> state" where
  "on_exception_intake st =
     st\<lparr>messages := messages st @ [intake_message (js ''Error connecting to backend.'') False],
        loading := False\<rparr>"

definition sendMessage_intake :: "jsstring \<Rightarrow> response \<Rightarrow> state \<Rightarrow> state option" where
  "sendMessage_intake questionText res st =
     (if loading st then Some st
      else
        (let st1 = st\<lparr>loading := True,
                      messages := messages st
                        @ (if questionText \<noteq> [] then [user_message questionText] else [])
                        @ [intake_message [] True]\<rparr>
         in case res of
              Rejected \<Rightarrow> Some (on_exception_intake st1)
            | Response ok body e \<Rightarrow>
                (case read_loop_intake body e st1 of
                   None \<Rightarrow> None
                 | Some (st2, thrown) \<Rightarrow>
                     Some (if thrown then on_exception_intake st2 else st2))))"


section \<open>Events of the wire contract\<close>

text \<open>
  The payloads with one field: \<open>{"token": t}\<close>, \<open>{"error": m}\<close>,
  \<open>{"status": phase, "message": msg}\<close> and
  \<open>{"final": {"answer": X, "files_analyzed": F, "file_count": N}}\<close>.
\<close>

definition Token :: "jsstring \<Rightarrow> payload" where
  "Token t = \<lparr>error = None, status = None, message = None, token = Some t, final = None\<rparr>"

definition Error :: "jsstring \<Rightarrow> payload" where
  "Error m = \<lparr>error = Some m, status = None, message = None, token = None, final = None\<rparr>"


definition Final :: "jsstring \<Rightarrow> jsstring list \<Rightarrow> int \<Rightarrow> payload" where
  "Final X F N =
     \<lparr>error = None, status = None, message = None, token = None,
      final = Some \<lparr>final_answer = Some X, files_analyzed = Some F, file_count = Some N,
                    final_plan = None, final_context = None\<rparr>\<rparr>"


section \<open>Inputs and notions of the properties\<close>

text \<open>The bytes of a text in ASCII, and the state in which the user has typed \<open>q\<close>.\<close>

definition ascii :: "string \<Rightarrow> byte list" where
  "ascii s = map (\<lambda>c. of_nat (of_char c)) s"

definition asking :: "jsstring \<Rightarrow> state" where
  "asking q = \<lparr>messages = [], input = q, loading = False, hasError = False\<rparr>"


text \<open>The state when the request has been sent: the question and the empty placeholder.\<close>

definition placeholder :: "jsstring \<Rightarrow> state" where
  "placeholder q =
     \<lparr>messages = [user_message q, assistant_message [] True], input = [], loading = True,
      hasError = False\<rparr>"

text \<open>
  The condition under which the updater of a token replaces the text instead of appending
  to it: the text has one of the three marks of a banner and does not contain the trimmed
  token.
\<close>

definition replaces_banner :: "jsstring \<Rightarrow> jsstring \<Rightarrow> bool" where
  "replaces_banner currentAnswer tok =
     ((includes_str currentAnswer page \<or> includes_str currentAnswer cycle
         \<or> includes_str currentAnswer memo)
      \<and> \<not> includes_str currentAnswer (trim tok))"




fun stream_text :: "utf8_decoder \<Rightarrow> byte list list \<Rightarrow> jsstring" where
  "stream_text d [] = []"
| "stream_text d (v # vs) =
     (let (d', chunk) = decode_stream d v in chunk @ stream_text d' vs)"




definition cut_in_character :: "byte list list" where
  "cut_in_character = [ascii ''data: {\"token\":\"caf'' @ [0xC3],
                       [0xA9] @ ascii '' \"}'' @ [0x0D, 0x0A]]"


section \<open>The fuel of the parser\<close>

text \<open>Every successful parser reads at least one character.\<close>

lemma parse_string_shorter:
  "parse_string acc s = Some (str, r) \<Longrightarrow> length r < length s"
proof (induction acc s rule: parse_string.induct)
  case (1 acc)
  then show ?case by simp
next
  case (2 acc c)
  then show ?case by (simp split: if_splits)
next
  case (3 acc c e cs)
  show ?case
  proof (cases "c = 0x22")
    case True
    with 3(4) show ?thesis by simp
  next
    case quote: False
    show ?thesis
    proof (cases "c = 0x5C")
      case bs: True
      show ?thesis
      proof (cases "e = 0x75")
        case u: True
        from 3(4) quote bs u obtain h1 h2 h3 h4 r' a b c' d where
          cs: "cs = h1 # h2 # h3 # h4 # r'"
          and h: "hex_val h1 = Some a" "hex_val h2 = Some b" "hex_val h3 = Some c'" "hex_val h4 = Some d"
          and p: "parse_string (of_nat (((a * 16 + b) * 16 + c') * 16 + d) # acc) r' = Some (str, r)"
          by (simp split: list.splits option.splits)
        have "length r < length r'"
          by (rule 3(1) [OF quote bs u cs refl refl refl h p])
        with cs show ?thesis by simp
      next
        case nu: False
        from 3(4) quote bs nu obtain x where
          x: "escape_char e = Some x" and p: "parse_string (x # acc) cs = Some (str, r)"
          by (simp split: option.splits)
        from 3(2) [OF quote bs nu x p] show ?thesis by simp
      qed
    next
      case nbs: False
      from 3(4) quote nbs have lt: "\<not> c < 0x20" and p: "parse_string (c # acc) (e # cs) = Some (str, r)"
        by (simp_all split: if_splits)
      from 3(3) [OF quote nbs lt p] show ?thesis by simp
    qed
  qed
qed

lemma dropWhile_takeWhile_shorter:
  "takeWhile P xs \<noteq> [] \<Longrightarrow> length (dropWhile P xs) < length xs"
  by (induction xs) (auto simp: le_imp_less_Suc length_dropWhile_le split: if_splits)

lemma parse_number_shorter:
  assumes "parse_number s = Some (v, r)"
  shows "length r < length s"
proof -
  define s1 where "s1 = (if startsWith s [0x2D] then tl s else s)"
  define s2 where "s2 = dropWhile is_digit s1"
  define s3 where "s3 = (if startsWith s2 [0x2E] then dropWhile is_digit (tl s2) else s2)"
  define has_exp where "has_exp = (startsWith s3 [0x65] \<or> startsWith s3 [0x45])"
  define s4 where "s4 = (if has_exp then tl s3 else s3)"
  define s5 where "s5 = (if has_exp \<and> (startsWith s4 [0x2D] \<or> startsWith s4 [0x2B]) then tl s4 else s4)"
  define s6 where "s6 = (if has_exp then dropWhile is_digit s5 else s3)"
  have "parse_number s \<noteq> None" using assms by simp
  then have ds: "takeWhile is_digit s1 \<noteq> []"
    unfolding parse_number_def s1_def Let_def by (auto split: if_splits)
  have "snd (the (parse_number s)) = s6 \<or> parse_number s = None"
    unfolding parse_number_def s1_def s2_def s3_def has_exp_def s4_def s5_def s6_def Let_def
    by simp
  with assms have r: "r = s6" by auto
  have 1: "length s1 \<le> length s" by (simp add: s1_def)
  have 2: "length s2 < length s1" unfolding s2_def using ds by (rule dropWhile_takeWhile_shorter)
  have 3: "length s3 \<le> length s2"
    unfolding s3_def using length_dropWhile_le [of is_digit "tl s2"] by auto
  have 4: "length s4 \<le> length s3" by (simp add: s4_def)
  have 5: "length s5 \<le> length s4" by (simp add: s5_def)
  have 6: "length s6 \<le> length s3"
    unfolding s6_def using length_dropWhile_le [of is_digit s5] 4 5 by auto
  from 1 2 3 6 r show ?thesis by simp
qed

lemma startsWith_length: "startsWith s p \<Longrightarrow> length p \<le> length s"
  by (induction s p rule: startsWith.induct) auto

lemma parse_scalar_shorter:
  assumes "parse_scalar s = Some (v, r)"
  shows "length r < length s"
proof -
  have t: "startsWith s (js ''true'') \<Longrightarrow> 4 \<le> length s"
    and f: "startsWith s (js ''false'') \<Longrightarrow> 5 \<le> length s"
    and n: "startsWith s (js ''null'') \<Longrightarrow> 4 \<le> length s"
    and q: "startsWith s [0x22] \<Longrightarrow> 1 \<le> length s"
    using startsWith_length [of s "js ''true''"] startsWith_length [of s "js ''false''"]
      startsWith_length [of s "js ''null''"] startsWith_length [of s "[0x22]"]
    by (simp_all add: js_def)
  consider (str) "startsWith s [0x22]"
    | (true) "\<not> startsWith s [0x22]" "startsWith s (js ''true'')"
    | (false) "\<not> startsWith s [0x22]" "\<not> startsWith s (js ''true'')" "startsWith s (js ''false'')"
    | (null) "\<not> startsWith s [0x22]" "\<not> startsWith s (js ''true'')" "\<not> startsWith s (js ''false'')"
        "startsWith s (js ''null'')"
    | (num) "\<not> startsWith s [0x22]" "\<not> startsWith s (js ''true'')" "\<not> startsWith s (js ''false'')"
        "\<not> startsWith s (js ''null'')"
    by blast
  then show ?thesis
  proof cases
    case str
    with assms obtain x where "parse_string [] (tl s) = Some (x, r)"
      by (auto simp: parse_scalar_def split: option.splits)
    from parse_string_shorter [OF this] show ?thesis by simp
  next
    case true
    with assms t show ?thesis by (auto simp: parse_scalar_def)
  next
    case false
    with assms f show ?thesis by (auto simp: parse_scalar_def)
  next
    case null
    with assms n show ?thesis by (auto simp: parse_scalar_def)
  next
    case num
    with assms have "parse_number s = Some (v, r)"
      by (auto simp: parse_scalar_def split: if_splits)
    then show ?thesis by (rule parse_number_shorter)
  qed
qed

text \<open>What a successful call with fuel has done.\<close>

lemma parse_elements_SomeE:
  assumes "parse_elements (Suc n) acc s = Some (v, r)"
  obtains (comma) v1 r1 cs where "parse_value n s = Some (v1, r1)"
      "dropWhile json_white r1 = 0x2C # cs" "parse_elements n (v1 # acc) cs = Some (v, r)"
    | (close) v1 r1 where "parse_value n s = Some (v1, r1)"
      "dropWhile json_white r1 = 0x5D # r" "v = JArr (rev (v1 # acc))"
  using assms
  by (auto simp del: dropWhile_eq_Nil_conv split: option.splits list.splits if_splits)

lemma parse_elements_comma:
  "parse_value n s = Some (v1, r1) \<Longrightarrow> dropWhile json_white r1 = 0x2C # cs \<Longrightarrow>
   parse_elements (Suc n) acc s = parse_elements n (v1 # acc) cs"
  by simp

lemma parse_elements_close:
  "parse_value n s = Some (v1, r1) \<Longrightarrow> dropWhile json_white r1 = 0x5D # cs \<Longrightarrow>
   parse_elements (Suc n) acc s = Some (JArr (rev (v1 # acc)), cs)"
  by simp

lemma parse_members_SomeE:
  assumes "parse_members (Suc n) acc s = Some (v, r)"
  obtains (comma) qs k r0 cs v1 r1 cs' where
      "dropWhile json_white s = 0x22 # qs" "parse_string [] qs = Some (k, r0)"
      "dropWhile json_white r0 = 0x3A # cs" "parse_value n cs = Some (v1, r1)"
      "dropWhile json_white r1 = 0x2C # cs'" "parse_members n ((k, v1) # acc) cs' = Some (v, r)"
    | (close) qs k r0 cs v1 r1 where
      "dropWhile json_white s = 0x22 # qs" "parse_string [] qs = Some (k, r0)"
      "dropWhile json_white r0 = 0x3A # cs" "parse_value n cs = Some (v1, r1)"
      "dropWhile json_white r1 = 0x7D # r" "v = JObj (rev ((k, v1) # acc))"
  using assms
  by (auto simp del: dropWhile_eq_Nil_conv split: option.splits list.splits if_splits)

lemma parse_members_comma:
  "dropWhile json_white s = 0x22 # qs \<Longrightarrow> parse_string [] qs = Some (k, r0) \<Longrightarrow>
   dropWhile json_white r0 = 0x3A # cs \<Longrightarrow> parse_value n cs = Some (v1, r1) \<Longrightarrow>
   dropWhile json_white r1 = 0x2C # cs' \<Longrightarrow>
   parse_members (Suc n) acc s = parse_members n ((k, v1) # acc) cs'"
  by simp

lemma parse_members_close:
  "dropWhile json_white s = 0x22 # qs \<Longrightarrow> parse_string [] qs = Some (k, r0) \<Longrightarrow>
   dropWhile json_white r0 = 0x3A # cs \<Longrightarrow> parse_value n cs = Some (v1, r1) \<Longrightarrow>
   dropWhile json_white r1 = 0x7D # cs' \<Longrightarrow>
   parse_members (Suc n) acc s = Some (JObj (rev ((k, v1) # acc)), cs')"
  by simp

lemma parse_value_SomeE:
  assumes "parse_value (Suc n) s = Some (v, r)"
  obtains (empty_object) cs where "dropWhile json_white s = 0x7B # cs"
      "dropWhile json_white cs = 0x7D # r" "v = JObj []"
    | (object) cs d ds where "dropWhile json_white s = 0x7B # cs"
      "dropWhile json_white cs = d # ds" "d \<noteq> 0x7D" "parse_members n [] (d # ds) = Some (v, r)"
    | (empty_array) cs where "dropWhile json_white s = 0x5B # cs"
      "dropWhile json_white cs = 0x5D # r" "v = JArr []"
    | (array) cs d ds where "dropWhile json_white s = 0x5B # cs"
      "dropWhile json_white cs = d # ds" "d \<noteq> 0x5D" "parse_elements n [] (d # ds) = Some (v, r)"
    | (scalar) c cs where "dropWhile json_white s = c # cs" "c \<noteq> 0x7B" "c \<noteq> 0x5B"
      "parse_scalar (c # cs) = Some (v, r)"
  using assms
  by (auto simp del: dropWhile_eq_Nil_conv split: option.splits list.splits if_splits)

lemma parse_value_object:
  "dropWhile json_white s = 0x7B # cs \<Longrightarrow> dropWhile json_white cs = d # ds \<Longrightarrow> d \<noteq> 0x7D \<Longrightarrow>
   parse_value (Suc n) s = parse_members n [] (d # ds)"
  by simp

lemma parse_value_array:
  "dropWhile json_white s = 0x5B # cs \<Longrightarrow> dropWhile json_white cs = d # ds \<Longrightarrow> d \<noteq> 0x5D \<Longrightarrow>
   parse_value (Suc n) s = parse_elements n [] (d # ds)"
  by simp

lemma parse_value_flat:
  "dropWhile json_white s = 0x7B # cs \<Longrightarrow> dropWhile json_white cs = 0x7D # r \<Longrightarrow>
   parse_value (Suc n) s = Some (JObj [], r)"
  "dropWhile json_white s = 0x5B # cs \<Longrightarrow> dropWhile json_white cs = 0x5D # r \<Longrightarrow>
   parse_value (Suc n) s = Some (JArr [], r)"
  "dropWhile json_white s = c # cs \<Longrightarrow> c \<noteq> 0x7B \<Longrightarrow> c \<noteq> 0x5B \<Longrightarrow>
   parse_value (Suc n) s = parse_scalar (c # cs)"
  by simp_all

text \<open>More fuel changes no result.\<close>

lemma fuel_mono_all:
  "(\<forall>s x m. parse_value n s = Some x \<longrightarrow> n \<le> m \<longrightarrow> parse_value m s = Some x)
   \<and> (\<forall>acc s x m. parse_elements n acc s = Some x \<longrightarrow> n \<le> m \<longrightarrow> parse_elements m acc s = Some x)
   \<and> (\<forall>acc s x m. parse_members n acc s = Some x \<longrightarrow> n \<le> m \<longrightarrow> parse_members m acc s = Some x)"
proof (induction n)
  case 0
  show ?case by simp
next
  case (Suc n)
  then have V: "\<And>s x m. parse_value n s = Some x \<Longrightarrow> n \<le> m \<Longrightarrow> parse_value m s = Some x"
    and E: "\<And>acc s x m. parse_elements n acc s = Some x \<Longrightarrow> n \<le> m \<Longrightarrow> parse_elements m acc s = Some x"
    and M: "\<And>acc s x m. parse_members n acc s = Some x \<Longrightarrow> n \<le> m \<Longrightarrow> parse_members m acc s = Some x"
    by blast+
  have 1: "parse_value m s = Some x" if a: "parse_value (Suc n) s = Some x" and le: "Suc n \<le> m"
    for s x m
  proof -
    obtain m' where m: "m = Suc m'" "n \<le> m'" using le by (cases m) auto
    obtain v r where x: "x = (v, r)" by (cases x)
    from a [unfolded x] have "parse_value (Suc m') s = Some (v, r)"
    proof (cases rule: parse_value_SomeE)
      case (empty_object cs)
      then show ?thesis by (simp add: parse_value_flat(1))
    next
      case (object cs d ds)
      from M [OF object(4) m(2)] object(1-3) show ?thesis by (simp add: parse_value_object)
    next
      case (empty_array cs)
      then show ?thesis by (simp add: parse_value_flat(2))
    next
      case (array cs d ds)
      from E [OF array(4) m(2)] array(1-3) show ?thesis by (simp add: parse_value_array)
    next
      case (scalar c cs)
      then show ?thesis by (simp add: parse_value_flat(3))
    qed
    then show ?thesis by (simp only: m(1) x)
  qed
  have 2: "parse_elements m acc s = Some x"
    if a: "parse_elements (Suc n) acc s = Some x" and le: "Suc n \<le> m" for acc s x m
  proof -
    obtain m' where m: "m = Suc m'" "n \<le> m'" using le by (cases m) auto
    obtain v r where x: "x = (v, r)" by (cases x)
    from a [unfolded x] have "parse_elements (Suc m') acc s = Some (v, r)"
    proof (cases rule: parse_elements_SomeE)
      case (comma v1 r1 cs)
      from V [OF comma(1) m(2)] comma(2) E [OF comma(3) m(2)] show ?thesis
        by (simp add: parse_elements_comma)
    next
      case (close v1 r1)
      from V [OF close(1) m(2)] close(2,3) show ?thesis
        by (simp add: parse_elements_close)
    qed
    then show ?thesis by (simp only: m(1) x)
  qed
  have 3: "parse_members m acc s = Some x"
    if a: "parse_members (Suc n) acc s = Some x" and le: "Suc n \<le> m" for acc s x m
  proof -
    obtain m' where m: "m = Suc m'" "n \<le> m'" using le by (cases m) auto
    obtain v r where x: "x = (v, r)" by (cases x)
    from a [unfolded x] have "parse_members (Suc m') acc s = Some (v, r)"
    proof (cases rule: parse_members_SomeE)
      case (comma qs k r0 cs v1 r1 cs')
      from comma(1-3) V [OF comma(4) m(2)] comma(5) M [OF comma(6) m(2)] show ?thesis
        by (simp add: parse_members_comma)
    next
      case (close qs k r0 cs v1 r1)
      from close(1-3) V [OF close(4) m(2)] close(5,6) show ?thesis
        by (simp add: parse_members_close)
    qed
    then show ?thesis by (simp only: m(1) x)
  qed
  from 1 2 3 show ?case by blast
qed

lemma fuel_mono:
  "parse_value n s = Some x \<Longrightarrow> n \<le> m \<Longrightarrow> parse_value m s = Some x"
  "parse_elements n acc s = Some x \<Longrightarrow> n \<le> m \<Longrightarrow> parse_elements m acc s = Some x"
  "parse_members n acc' s = Some x \<Longrightarrow> n \<le> m \<Longrightarrow> parse_members m acc' s = Some x"
  using fuel_mono_all [of n] by blast+

lemma dropWhile_Cons_shorter: "dropWhile P xs = c # cs \<Longrightarrow> length cs < length xs"
  using length_dropWhile_le [of P xs] by simp

text \<open>
  A successful call has read at least one character, and succeeds with as much fuel as it
  has read characters.
\<close>

lemma fuel_bounded_all:
  "(\<forall>s v r. parse_value n s = Some (v, r) \<longrightarrow>
       length r < length s \<and> parse_value (length s - length r) s = Some (v, r))
   \<and> (\<forall>acc s v r. parse_elements n acc s = Some (v, r) \<longrightarrow>
       length r < length s \<and> parse_elements (length s - length r) acc s = Some (v, r))
   \<and> (\<forall>acc s v r. parse_members n acc s = Some (v, r) \<longrightarrow>
       length r < length s \<and> parse_members (length s - length r) acc s = Some (v, r))"
proof (induction n)
  case 0
  show ?case by simp
next
  case (Suc n)
  then have V: "\<And>s v r. parse_value n s = Some (v, r) \<Longrightarrow>
        length r < length s \<and> parse_value (length s - length r) s = Some (v, r)"
    and E: "\<And>acc s v r. parse_elements n acc s = Some (v, r) \<Longrightarrow>
        length r < length s \<and> parse_elements (length s - length r) acc s = Some (v, r)"
    and M: "\<And>acc s v r. parse_members n acc s = Some (v, r) \<Longrightarrow>
        length r < length s \<and> parse_members (length s - length r) acc s = Some (v, r)"
    by blast+
  have 1: "length r < length s \<and> parse_value (length s - length r) s = Some (v, r)"
    if a: "parse_value (Suc n) s = Some (v, r)" for s v r
    using a
  proof (cases rule: parse_value_SomeE)
    case (empty_object cs)
    have l: "length r < length cs" "length cs < length s"
      using empty_object(1,2) by (auto dest: dropWhile_Cons_shorter)
    then obtain k where k: "length s - length r = Suc k" by (cases "length s - length r") auto
    show ?thesis using l empty_object unfolding k by (simp add: parse_value_flat(1))
  next
    case (object cs d ds)
    from M [OF object(4)] have m: "length r < length (d # ds)"
      "parse_members (length (d # ds) - length r) [] (d # ds) = Some (v, r)" by auto
    have l: "length ds < length cs" "length cs < length s"
      using object(1,2) by (auto dest: dropWhile_Cons_shorter)
    obtain k where k: "length s - length r = Suc k"
      using l m(1) by (cases "length s - length r") auto
    have "length (d # ds) - length r \<le> k" using k l m(1) by simp
    from fuel_mono(3) [OF m(2) this] object(1-3) l m(1) show ?thesis
      unfolding k by (simp add: parse_value_object)
  next
    case (empty_array cs)
    have l: "length r < length cs" "length cs < length s"
      using empty_array(1,2) by (auto dest: dropWhile_Cons_shorter)
    then obtain k where k: "length s - length r = Suc k" by (cases "length s - length r") auto
    show ?thesis using l empty_array unfolding k by (simp add: parse_value_flat(2))
  next
    case (array cs d ds)
    from E [OF array(4)] have m: "length r < length (d # ds)"
      "parse_elements (length (d # ds) - length r) [] (d # ds) = Some (v, r)" by auto
    have l: "length ds < length cs" "length cs < length s"
      using array(1,2) by (auto dest: dropWhile_Cons_shorter)
    obtain k where k: "length s - length r = Suc k"
      using l m(1) by (cases "length s - length r") auto
    have "length (d # ds) - length r \<le> k" using k l m(1) by simp
    from fuel_mono(2) [OF m(2) this] array(1-3) l m(1) show ?thesis
      unfolding k by (simp add: parse_value_array)
  next
    case (scalar c cs)
    from parse_scalar_shorter [OF scalar(4)] have m: "length r < length (c # cs)" .
    have l: "length cs < length s" using scalar(1) by (rule dropWhile_Cons_shorter)
    then obtain k where k: "length s - length r = Suc k"
      using m by (cases "length s - length r") auto
    show ?thesis using scalar l m unfolding k by (simp add: parse_value_flat(3))
  qed
  have 2: "length r < length s \<and> parse_elements (length s - length r) acc s = Some (v, r)"
    if a: "parse_elements (Suc n) acc s = Some (v, r)" for acc s v r
    using a
  proof (cases rule: parse_elements_SomeE)
    case (comma v1 r1 cs)
    from V [OF comma(1)] have v: "length r1 < length s"
      "parse_value (length s - length r1) s = Some (v1, r1)" by auto
    from E [OF comma(3)] have e: "length r < length cs"
      "parse_elements (length cs - length r) (v1 # acc) cs = Some (v, r)" by auto
    have l: "length cs < length r1" using comma(2) by (rule dropWhile_Cons_shorter)
    obtain k where k: "length s - length r = Suc k"
      using v(1) e(1) l by (cases "length s - length r") auto
    have kv: "length s - length r1 \<le> k" and ke: "length cs - length r \<le> k"
      using k v(1) e(1) l by simp_all
    from fuel_mono(1) [OF v(2) kv] comma(2) fuel_mono(2) [OF e(2) ke] v(1) e(1) l show ?thesis
      unfolding k by (simp add: parse_elements_comma)
  next
    case (close v1 r1)
    from V [OF close(1)] have v: "length r1 < length s"
      "parse_value (length s - length r1) s = Some (v1, r1)" by auto
    have l: "length r < length r1" using close(2) by (rule dropWhile_Cons_shorter)
    obtain k where k: "length s - length r = Suc k"
      using v(1) l by (cases "length s - length r") auto
    have kv: "length s - length r1 \<le> k" using k v(1) l by simp
    from fuel_mono(1) [OF v(2) kv] close(2,3) v(1) l show ?thesis
      unfolding k by (simp add: parse_elements_close)
  qed
  have 3: "length r < length s \<and> parse_members (length s - length r) acc s = Some (v, r)"
    if a: "parse_members (Suc n) acc s = Some (v, r)" for acc s v r
    using a
  proof (cases rule: parse_members_SomeE)
    case (comma qs k0 r0 cs v1 r1 cs')
    from V [OF comma(4)] have v: "length r1 < length cs"
      "parse_value (length cs - length r1) cs = Some (v1, r1)" by auto
    from M [OF comma(6)] have e: "length r < length cs'"
      "parse_members (length cs' - length r) ((k0, v1) # acc) cs' = Some (v, r)" by auto
    have l: "length qs < length s" "length r0 < length qs" "length cs < length r0"
      "length cs' < length r1"
      using comma(1,3,5) parse_string_shorter [OF comma(2)]
      by (auto dest: dropWhile_Cons_shorter)
    obtain k where k: "length s - length r = Suc k"
      using v(1) e(1) l by (cases "length s - length r") auto
    have kv: "length cs - length r1 \<le> k" and ke: "length cs' - length r \<le> k"
      using k v(1) e(1) l by simp_all
    from comma(1-3) fuel_mono(1) [OF v(2) kv] comma(5) fuel_mono(3) [OF e(2) ke] v(1) e(1) l
    show ?thesis
      unfolding k by (simp add: parse_members_comma)
  next
    case (close qs k0 r0 cs v1 r1)
    from V [OF close(4)] have v: "length r1 < length cs"
      "parse_value (length cs - length r1) cs = Some (v1, r1)" by auto
    have l: "length qs < length s" "length r0 < length qs" "length cs < length r0"
      "length r < length r1"
      using close(1,3,5) parse_string_shorter [OF close(2)]
      by (auto dest: dropWhile_Cons_shorter)
    obtain k where k: "length s - length r = Suc k"
      using v(1) l by (cases "length s - length r") auto
    have kv: "length cs - length r1 \<le> k" using k v(1) l by simp
    from close(1-3) fuel_mono(1) [OF v(2) kv] close(5,6) v(1) l show ?thesis
      unfolding k by (simp add: parse_members_close)
  qed
  from 1 2 3 show ?case by blast
qed

text \<open>
  The fuel \<open>JSON_parse\<close> gives is enough: a text that any amount of fuel parses is parsed
  with it, to the same value.
\<close>

lemma fuel_enough:
  assumes "parse_value n s = Some (v, r)"
  shows "parse_value (Suc (length s)) s = Some (v, r)"
proof -
  from fuel_bounded_all [of n] assms
  have "parse_value (length s - length r) s = Some (v, r)" by blast
  then show ?thesis by (rule fuel_mono(1)) simp
qed

lemma JSON_parse_None:
  assumes "JSON_parse s = None" and "parse_value n s = Some (v, r)"
  shows "dropWhile json_white r \<noteq> []"
  using assms fuel_enough [OF assms(2)] by (auto simp: JSON_parse_def split: if_splits)


section \<open>The last message of the conversation\<close>

lemma update_last_length [simp]: "length (update_last f xs) = length xs"
  by (cases xs rule: rev_cases) (simp_all add: update_last_def)

lemma update_last_butlast [simp]: "butlast (update_last f xs) = butlast xs"
  by (simp add: update_last_def)

lemma update_last_last [simp]: "xs \<noteq> [] \<Longrightarrow> last (update_last f xs) = f (last xs)"
  by (simp add: update_last_def)

lemma update_last_Nil [simp]: "(update_last f xs = []) = (xs = [])"
  by (simp add: update_last_def)

lemma update_last_snoc [simp]: "update_last f (xs @ [x]) = xs @ [f x]"
  by (simp add: update_last_def)

lemma update_last_snoc2 [simp]: "update_last f (xs @ [x, y]) = xs @ [x, f y]"
  using update_last_snoc [of f "xs @ [x]" y] by simp

lemma update_last_twice [simp]: "update_last f (update_last g xs) = update_last (f \<circ> g) xs"
  by (simp add: update_last_def)


section \<open>What the loop body does with each event\<close>

lemma handle_Token:
  "handle (Token t) st =
     (if t = [] then st else st\<lparr>messages := update_last (token_updater t) (messages st)\<rparr>,
      False)"
  by (simp add: handle_def Token_def truthy_def on_status_def on_token_def on_final_def
      or_empty_def)

lemma handle_Final:
  "handle (Final X F N) st =
     (st\<lparr>messages :=
          update_last (\<lambda>m. m\<lparr>answer := Some X, filesAnalyzed := Some F, fileCount := Some N,
                               streaming := Some False\<rparr>) (messages st),
        loading := False\<rparr>, False)"
  by (simp add: handle_def Final_def truthy_def on_status_def on_token_def on_final_def
      final_updater_def [abs_def])

lemma handle_Error:
  "handle (Error e) st =
     (if e = [] then (st, False)
      else (st\<lparr>hasError := True,
               messages := update_last (\<lambda>_. assistant_message (errorMessage e) False) (messages st),
               loading := False\<rparr>, True))"
  by (simp add: handle_def Error_def truthy_def on_status_def on_token_def on_final_def
      on_error_def or_empty_def)


text \<open>The JSON texts of the events are classified as these payloads.\<close>

lemma typed_token: "typed (JObj [(js ''token'', JStr t)]) = Some (Token t)"
  by (simp add: typed_def string_field_def final_field_def Token_def js_def)

lemma typed_error: "typed (JObj [(js ''error'', JStr m)]) = Some (Error m)"
  by (simp add: typed_def string_field_def final_field_def Error_def js_def)

text \<open>Tokens never leave the loop, and keep the conversation's length.\<close>

lemma for_lines_Tokens:
  assumes "messages st \<noteq> []"
  shows "\<exists>st'. for_lines (map (Parsed \<circ> Token) ts @ es) st = for_lines es st'
      \<and> messages st' \<noteq> [] \<and> length (messages st') = length (messages st)
      \<and> butlast (messages st') = butlast (messages st)"
  using assms
proof (induction ts arbitrary: st)
  case Nil
  then show ?case by auto
next
  case (Cons t ts)
  let ?st1 = "fst (handle (Token t) st)"
  have 1: "messages ?st1 \<noteq> []" "length (messages ?st1) = length (messages st)"
      "butlast (messages ?st1) = butlast (messages st)"
    using Cons.prems by (simp_all add: handle_Token)
  have 2: "for_lines (map (Parsed \<circ> Token) (t # ts) @ es) st
             = for_lines (map (Parsed \<circ> Token) ts @ es) ?st1"
    by (simp add: handle_Token)
  from Cons.IH [OF 1(1)] obtain st' where
    a: "for_lines (map (Parsed \<circ> Token) ts @ es) ?st1 = for_lines es st'"
    and b: "messages st' \<noteq> []" "length (messages st') = length (messages ?st1)"
      "butlast (messages st') = butlast (messages ?st1)"
    by blast
  have "for_lines (map (Parsed \<circ> Token) (t # ts) @ es) st = for_lines es st'"
    using 2 a by (rule trans)
  with b 1 show ?case by metis
qed


section \<open>Final overrides tokens\<close>

text \<open>
  Claim C3. Whatever tokens were processed before it, a Final event with answer \<open>X\<close>,
  files \<open>F\<close> and count \<open>N\<close> leaves the in-progress message (the last one) with text
  \<open>X\<close>, \<open>filesAnalyzed = F\<close>, \<open>fileCount = N\<close> and \<open>streaming = false\<close>; the messages
  before it are untouched.
\<close>

theorem final_overrides_tokens:
  assumes "messages st \<noteq> []"
  shows "\<exists>st'. for_lines (map (Parsed \<circ> Token) ts @ [Parsed (Final X F N)]) st = Some st'
      \<and> answer (last (messages st')) = Some X
      \<and> filesAnalyzed (last (messages st')) = Some F
      \<and> fileCount (last (messages st')) = Some N
      \<and> streaming (last (messages st')) = Some False
      \<and> length (messages st') = length (messages st)
      \<and> butlast (messages st') = butlast (messages st)"
proof -
  obtain st1 where
    1: "for_lines (map (Parsed \<circ> Token) ts @ [Parsed (Final X F N)]) st
          = for_lines [Parsed (Final X F N)] st1"
    and 2: "messages st1 \<noteq> []" "length (messages st1) = length (messages st)"
      "butlast (messages st1) = butlast (messages st)"
    using for_lines_Tokens [OF assms] by blast
  show ?thesis
    using 1 2 by (simp add: handle_Final)
qed

theorem final_overrides_tokens_witness:
  "messages (placeholder (js ''q'')) \<noteq> []
   \<and> (\<exists>st'. for_lines (map (Parsed \<circ> Token) [js ''Result: '', js ''normal.'']
                  @ [Parsed (Final (js ''Result: normal.'') [js ''a.txt''] 1)])
                (placeholder (js ''q''))
              = Some st'
        \<and> answer (last (messages st')) = Some (js ''Result: normal.'')
        \<and> filesAnalyzed (last (messages st')) = Some [js ''a.txt'']
        \<and> fileCount (last (messages st')) = Some 1
        \<and> streaming (last (messages st')) = Some False
        \<and> length (messages st') = 2)"
  using final_overrides_tokens
    [of "placeholder (js ''q'')"
        "[js ''Result: '', js ''normal.'']" "js ''Result: normal.''" "[js ''a.txt'']" 1]
  by (auto simp: placeholder_def)


section \<open>A field with a falsy value\<close>

text \<open>
  Claim C10. A payload whose only recognised field is a \<open>token\<close> or an \<open>error\<close> equal to
  the empty string changes nothing: every branch of the loop body tests the value of its
  field, not its presence. The state after the line is the state before it (so an empty
  \<open>error\<close> neither ends the message nor touches \<open>streaming\<close>, \<open>loading\<close> or
  \<open>hasError\<close>), and the loop goes on to the next line.
\<close>

theorem falsy_field_is_noop:
  "step (Parsed (Token [])) st = Some (st, False)
   \<and> step (Parsed (Error [])) st = Some (st, False)
   \<and> for_lines (Parsed (Token []) # es) st = for_lines es st
   \<and> for_lines (Parsed (Error []) # es) st = for_lines es st"
  by (simp add: handle_Token handle_Error)

lemma falsy_lines:
  "classify (js ''data: {\"token\":\"\"}'') = Parsed (Token [])"
  "classify (js ''data: {\"error\":\"\"}'') = Parsed (Error [])"
  by code_simp+

theorem falsy_field_is_noop_witness:
  "step (classify (js ''data: {\"token\":\"\"}'')) (placeholder (js ''q''))
     = Some (placeholder (js ''q''), False)
   \<and> step (classify (js ''data: {\"error\":\"\"}'')) (placeholder (js ''q''))
     = Some (placeholder (js ''q''), False)
   \<and> streaming (last (messages (placeholder (js ''q'')))) = Some True"
  using falsy_field_is_noop [of "placeholder (js ''q'')" "[]"]
  by (simp add: falsy_lines placeholder_def assistant_message_def)


section \<open>The token-append law\<close>

lemma token_updater_answer:
  "answer m = Some a \<Longrightarrow>
   answer (token_updater t m) = Some (if replaces_banner a t then t else a @ t)"
  by (simp add: token_updater_def replaces_banner_def or_empty_def to_string_def Let_def)

lemma tokens_append:
  assumes "messages st \<noteq> []" and "answer (last (messages st)) = Some a"
    and "\<forall>i<length ts. \<not> replaces_banner (a @ concat (take i ts)) (ts ! i)"
  shows "\<exists>st'. for_lines (map (Parsed \<circ> Token) ts) st = Some st'
      \<and> answer (last (messages st')) = Some (a @ concat ts)
      \<and> length (messages st') = length (messages st)
      \<and> butlast (messages st') = butlast (messages st)"
  using assms
proof (induction ts arbitrary: st a)
  case Nil
  then show ?case by simp
next
  case (Cons t ts)
  let ?st1 = "fst (handle (Token t) st)"
  have no: "\<not> replaces_banner a t"
    using Cons.prems(3) by fastforce
  have 1: "messages ?st1 \<noteq> []" "length (messages ?st1) = length (messages st)"
      "butlast (messages ?st1) = butlast (messages st)"
    using Cons.prems(1) by (simp_all add: handle_Token)
  have 2: "answer (last (messages ?st1)) = Some (a @ t)"
    using Cons.prems(1,2) no by (simp add: handle_Token token_updater_answer)
  have 3: "\<forall>i<length ts. \<not> replaces_banner ((a @ t) @ concat (take i ts)) (ts ! i)"
  proof (intro allI impI)
    fix i assume "i < length ts"
    then have "\<not> replaces_banner (a @ concat (take (Suc i) (t # ts))) ((t # ts) ! Suc i)"
      using Cons.prems(3) by (metis Suc_less_eq length_Cons)
    then show "\<not> replaces_banner ((a @ t) @ concat (take i ts)) (ts ! i)" by simp
  qed
  from Cons.IH [OF 1(1) 2 3] obtain st' where
    a: "for_lines (map (Parsed \<circ> Token) ts) ?st1 = Some st'"
    and b: "answer (last (messages st')) = Some ((a @ t) @ concat ts)"
      "length (messages st') = length (messages ?st1)"
      "butlast (messages st') = butlast (messages ?st1)"
    by blast
  have "for_lines (map (Parsed \<circ> Token) (t # ts)) st = for_lines (map (Parsed \<circ> Token) ts) ?st1"
    by (simp add: handle_Token)
  with a have c: "for_lines (map (Parsed \<circ> Token) (t # ts)) st = Some st'" by simp
  have d: "answer (last (messages st')) = Some (a @ concat (t # ts))"
    "length (messages st') = length (messages st)"
    "butlast (messages st') = butlast (messages st)"
    using b 1 by simp_all
  from c d show ?case by blast
qed

text \<open>
  Claim C7. Starting from the empty placeholder, a sequence of Token events none of which
  meets the replacement condition of the source (the text accumulated so far contains a
  banner mark and does not contain the trimmed token) leaves the concatenation of the
  fragments, in the order of arrival, as the text of the message.
\<close>

theorem token_append_law:
  assumes "messages st \<noteq> []" and "answer (last (messages st)) = Some []"
    and "\<forall>i<length ts. \<not> replaces_banner (concat (take i ts)) (ts ! i)"
  shows "\<exists>st'. for_lines (map (Parsed \<circ> Token) ts) st = Some st'
      \<and> answer (last (messages st')) = Some (concat ts)
      \<and> butlast (messages st') = butlast (messages st)"
  using tokens_append [of st "[]" ts] assms by auto

lemma no_banner:
  "\<not> replaces_banner [] (js ''Result: '')"
  "\<not> replaces_banner (js ''Result: '') (js ''normal.'')"
  by code_simp+

theorem token_append_law_witness:
  "messages (placeholder (js ''q'')) \<noteq> []
   \<and> answer (last (messages (placeholder (js ''q'')))) = Some []
   \<and> \<not> replaces_banner [] (js ''Result: '')
   \<and> \<not> replaces_banner (js ''Result: '') (js ''normal.'')
   \<and> (\<exists>st'. for_lines (map (Parsed \<circ> Token) [js ''Result: '', js ''normal.''])
                 (placeholder (js ''q'')) = Some st'
        \<and> answer (last (messages st')) = Some (js ''Result: normal.''))"
proof -
  have h1: "messages (placeholder (js ''q'')) \<noteq> []"
    and h2: "answer (last (messages (placeholder (js ''q'')))) = Some []"
    by (simp_all add: placeholder_def assistant_message_def)
  have h3: "\<forall>i<length [js ''Result: '', js ''normal.''].
         \<not> replaces_banner (concat (take i [js ''Result: '', js ''normal.'']))
             ([js ''Result: '', js ''normal.''] ! i)"
    using no_banner by (simp add: less_Suc_eq numeral_2_eq_2 all_conj_distrib)
  have c: "concat [js ''Result: '', js ''normal.''] = js ''Result: normal.''"
    by (simp add: js_def)
  show ?thesis
    using token_append_law [OF h1 h2 h3] h1 h2 no_banner unfolding c by blast
qed


section \<open>Status banners\<close>

lemma split_not_Nil [simp]: "split sep s \<noteq> []"
  by (induction s) (auto split: list.splits)













lemma status_frame:
  "role (status_updater phase msg m) = role m \<and> content (status_updater phase msg m) = content m
   \<and> filesAnalyzed (status_updater phase msg m) = filesAnalyzed m
   \<and> fileCount (status_updater phase msg m) = fileCount m"
  by (simp add: status_updater_def Let_def)






section \<open>Substrings\<close>

lemma startsWith_iff: "startsWith s p = (\<exists>r. s = p @ r)"
  by (induction s p rule: startsWith.induct) auto

lemma includes_str_iff: "includes_str s sub = (\<exists>a b. s = a @ sub @ b)"
proof (induction s)
  case Nil
  then show ?case by simp
next
  case (Cons c cs)
  show ?case
  proof
    assume "includes_str (c # cs) sub"
    then consider "startsWith (c # cs) sub" | "includes_str cs sub" by auto
    then show "\<exists>a b. c # cs = a @ sub @ b"
    proof cases
      case 1
      then obtain r where "c # cs = sub @ r" by (auto simp: startsWith_iff)
      then have "c # cs = [] @ sub @ r" by simp
      then show ?thesis by blast
    next
      case 2
      then obtain a b where "cs = a @ sub @ b" using Cons.IH by blast
      then have "c # cs = (c # a) @ sub @ b" by simp
      then show ?thesis by blast
    qed
  next
    assume "\<exists>a b. c # cs = a @ sub @ b"
    then obtain a b where ab: "c # cs = a @ sub @ b" by blast
    show "includes_str (c # cs) sub"
    proof (cases a)
      case Nil
      with ab have "startsWith (c # cs) sub" by (auto simp: startsWith_iff)
      then show ?thesis by simp
    next
      case (Cons x a')
      with ab have "cs = a' @ sub @ b" by simp
      then have "includes_str cs sub" using Cons.IH by blast
      then show ?thesis by simp
    qed
  qed
qed

lemma includes_str_trans:
  "includes_str s u \<Longrightarrow> includes_str u v \<Longrightarrow> includes_str s v"
proof -
  assume "includes_str s u" and "includes_str u v"
  then obtain a b c d where "s = a @ u @ b" and "u = c @ v @ d"
    by (auto simp: includes_str_iff)
  then have "s = (a @ c) @ v @ (d @ b)" by simp
  then show ?thesis unfolding includes_str_iff by blast
qed


section \<open>Lines that change no message\<close>


lemma for_lines_length:
  "for_lines es st = Some st' \<Longrightarrow> length (messages st') = length (messages st)"
proof (induction es arbitrary: st)
  case Nil
  then show ?case by simp
next
  case (Cons e es)
  show ?case
  proof (cases e)
    case (Parsed p)
    obtain st1 brk where h: "handle p st = (st1, brk)" by (cases "handle p st")
    then have l: "length (messages st1) = length (messages st)"
      by (auto simp: handle_def on_error_def on_status_def on_token_def on_final_def
          split: if_splits option.splits)
    show ?thesis
      using Cons.prems Cons.IH [of st1] Parsed h l by (auto split: if_splits)
  qed (use Cons in \<open>auto simp: stop_loading_def split: if_splits\<close>)
qed

lemma read_loop_length:
  "read_loop d vs e st = Some (st', thrown) \<Longrightarrow> length (messages st') = length (messages st)"
proof (induction vs arbitrary: d st)
  case Nil
  then show ?case by (cases e) (auto simp: stop_loading_def split: if_splits)
next
  case (Cons v vs)
  obtain d' chunk where dc: "decode_stream d v = (d', chunk)" by (cases "decode_stream d v")
  from Cons.prems dc obtain st1 where
    1: "for_lines (chunk_events chunk) st = Some st1" and 2: "read_loop d' vs e st1 = Some (st', thrown)"
    by (auto split: option.splits)
  from Cons.IH [OF 2] for_lines_length [OF 1] show ?case by simp
qed


section \<open>After a terminal event\<close>





section \<open>The end of the stream\<close>





section \<open>A payload that does not parse\<close>

text \<open>
  In the client of src/unnamed/part_002 (and of part_000) the parsing stands in a
  \<open>try\<close> whose \<open>catch\<close> goes on with the next line.
\<close>

lemma malformed_is_skipped:
  "classify line = Malformed \<Longrightarrow> for_lines (classify line # es) st = for_lines es st"
  by simp

lemma malformed_example:
  "classify (js ''data: not-json'') = Malformed"
  "sendMessage (Response True [ascii ''data: not-json'' @ [0x0A] @ ascii ''data: {\"token\":\"hi\"}'' @ [0x0A]] Closed)
      (asking (js ''q''))
     = Some \<lparr>messages = [user_message (js ''q''), assistant_message (js ''hi'') True],
             input = [], loading = False, hasError = False\<rparr>"
  by code_simp+

text \<open>
  Claim C4 on App.original.jsx, where \<open>JSON.parse\<close> stands in no \<open>try\<close> of its own
  (src/unnamed/part_001 has the same loop): the line \<open>data: not-json\<close> ends the whole
  request in the \<open>catch\<close> of \<open>sendMessage\<close>, the placeholder becomes the connectivity
  message, and the token of the next line is never read.
\<close>

theorem original_aborts_on_malformed:
  "sendMessage_original
     (Response True [ascii ''data: not-json'' @ [0x0A] @ ascii ''data: {\"token\":\"hi\"}'' @ [0x0A]] Closed)
     (asking (js ''q''))
     = Some \<lparr>messages = [user_message (js ''q''),
                          original_message (js ''Error connecting to backend.'') False],
             input = [], loading = False, hasError = False\<rparr>"
  by code_simp


section \<open>Error events\<close>

text \<open>
  An Error event with a message that is not empty replaces the last message by
  \<open>{role: assistant, answer, streaming: false}\<close>, which has no \<open>filesAnalyzed\<close> and no
  \<open>fileCount\<close>, and leaves the \<open>for\<close> loop: the other lines of the chunk are not
  processed. The text is the message itself unless it contains \<open>429\<close>, \<open>Rate limit\<close> or
  \<open>rate limit\<close> (the second test of the source, for \<open>Error code: 429\<close>, is never
  reached).
\<close>

lemma error_replaces_message:
  assumes "e \<noteq> []" and "messages st \<noteq> []"
  shows "for_lines (Parsed (Error e) # rest) st
           = Some (st\<lparr>hasError := True,
                       messages := butlast (messages st) @ [assistant_message (errorMessage e) False],
                       loading := False\<rparr>)"
  using assms by (simp add: handle_Error update_last_def)

lemma errorMessage_cases:
  "errorMessage e = (if includes_str e (js ''429'') \<or> includes_str e (js ''Rate limit'')
                        \<or> includes_str e (js ''rate limit'') then rate_limit_tokens else e)"
proof -
  have "includes_str (js ''Error code: 429'') (js ''429'')" by code_simp
  then have "includes_str e (js ''Error code: 429'') \<Longrightarrow> includes_str e (js ''429'')"
    by (rule includes_str_trans [rotated])
  then show ?thesis by (auto simp: errorMessage_def)
qed


text \<open>
  Claim C6 says that all remaining events of the response body are ignored. The
  \<open>break\<close> leaves the loop over the lines of one chunk only: a token that arrives in the
  next chunk is appended to the error text and sets \<open>streaming\<close> back to true, while the
  same two lines in one chunk leave the error text alone.
\<close>

theorem token_after_error_in_next_chunk:
  "sendMessage (Response True [ascii ''data: {\"error\":\"boom\"}'' @ [0x0A],
                               ascii ''data: {\"token\":\"hi\"}'' @ [0x0A]] Closed) (asking (js ''q''))
     = Some \<lparr>messages = [user_message (js ''q''), assistant_message (js ''boomhi'') True],
             input = [], loading = False, hasError = True\<rparr>
   \<and> sendMessage (Response True [ascii ''data: {\"error\":\"boom\"}'' @ [0x0A]
                               @ ascii ''data: {\"token\":\"hi\"}'' @ [0x0A]] Closed) (asking (js ''q''))
     = Some \<lparr>messages = [user_message (js ''q''), assistant_message (js ''boom'') False],
             input = [], loading = False, hasError = True\<rparr>"
  by code_simp


section \<open>Transport failures\<close>

text \<open>
  In the client of src/unnamed/part_002 the \<open>catch\<close> of \<open>sendMessage\<close> replaces the last
  message, as the branch of an Error event with the connectivity text does, and sets
  \<open>loading\<close> to false: when \<open>fetch\<close> rejects, when the response is not \<open>ok\<close>, and when a
  read rejects after some chunks.
\<close>

lemma errorMessage_connecting: "errorMessage connecting = connecting"
  by code_simp

lemma on_exception_is_error_transition:
  "messages (on_exception st) = messages (on_error connecting st)
   \<and> loading (on_exception st) = loading (on_error connecting st)"
  by (simp add: on_exception_def on_error_def errorMessage_connecting)

lemma failure_replaces_placeholder:
  assumes "trim (input st) \<noteq> []" and "\<not> loading st"
  shows "sendMessage Rejected st
           = Some (st\<lparr>input := [], loading := False,
                       messages := messages st @ [user_message (input st), assistant_message connecting False],
                       hasError := False\<rparr>)"
    and "sendMessage (Response False body e) st
           = Some (st\<lparr>input := [], loading := False,
                       messages := messages st @ [user_message (input st), assistant_message connecting False],
                       hasError := False\<rparr>)"
  using assms by (simp_all add: sendMessage_def Let_def on_exception_def)

lemma aborted_stream_replaces_placeholder:
  assumes "trim (input st) \<noteq> []" and "\<not> loading st"
    and "sendMessage (Response True body Aborted) st = Some st'"
  shows "length (messages st') = length (messages st) + 2
     \<and> last (messages st') = assistant_message connecting False
     \<and> \<not> loading st'"
proof -
  let ?st1 = "st\<lparr>input := [], loading := True,
                  messages := messages st @ [user_message (input st), assistant_message [] True],
                  hasError := False\<rparr>"
  have thrown: "read_loop d vs Aborted s = Some (s', b) \<Longrightarrow> b" for d vs s s' b
    by (induction vs arbitrary: d s) (auto split: option.splits prod.splits)
  from assms obtain st2 b where
    r: "read_loop new_TextDecoder body Aborted ?st1 = Some (st2, b)"
    and s: "st' = (if b then on_exception st2 else st2)"
    by (auto simp: sendMessage_def Let_def split: option.splits)
  from thrown [OF r] s have s': "st' = on_exception st2" by simp
  from read_loop_length [OF r] have l: "length (messages st2) = length (messages st) + 2" by simp
  then have "messages st2 \<noteq> []" by auto
  with l show ?thesis
    unfolding s' by (simp add: on_exception_def)
qed

text \<open>
  Claim C9 on the client of src/unnamed/part_001: its \<open>catch\<close> appends the connectivity
  message instead. When \<open>fetch\<close> rejects, the placeholder stays in the conversation with
  \<open>streaming = true\<close> and a third message follows it.
\<close>

theorem intake_failure_appends:
  "sendMessage_intake (js ''q'') Rejected (asking [])
     = Some \<lparr>messages = [user_message (js ''q''), intake_message [] True,
                          intake_message (js ''Error connecting to backend.'') False],
             input = [], loading = False, hasError = False\<rparr>"
  by code_simp


section \<open>Chunk boundaries\<close>

subsection \<open>The decoder\<close>












subsection \<open>Lines\<close>














subsection \<open>A line cut by a read is lost\<close>



subsection \<open>Reads that end with a line feed\<close>




lemma cut_in_character_text:
  "stream_text new_TextDecoder cut_in_character
     = js ''data: {\"token\":\"caf'' @ [0xE9] @ js '' \"}'' @ [0x0D, 0x0A]"
  by code_simp


section \<open>The same laws in the client of src/unnamed/part_000\<close>

text \<open>
  The loop body of part_000 has the branches for \<open>token\<close> and \<open>final\<close> word for word,
  without the banners: a falsy field changes nothing, a token is always appended, and a
  Final event overwrites the text and sets the file fields and \<open>streaming = false\<close>.
\<close>

lemma enhanced_falsy_field:
  "handle_enhanced (Token []) st = Some st" "handle_enhanced (Error []) st = Some st"
  by (simp_all add: handle_enhanced_def Token_def Error_def truthy_def)

lemma enhanced_Token:
  "t \<noteq> [] \<Longrightarrow> messages st \<noteq> [] \<Longrightarrow>
   handle_enhanced (Token t) st
     = Some (st\<lparr>messages :=
               update_last (\<lambda>m. m\<lparr>answer := Some (to_string (answer m) @ t)\<rparr>) (messages st)\<rparr>)"
  by (simp add: handle_enhanced_def Token_def truthy_def or_empty_def)

lemma enhanced_Final:
  "handle_enhanced (Final X F N) st
     = Some (st\<lparr>messages :=
               update_last (\<lambda>m. m\<lparr>answer := Some X, filesAnalyzed := Some F, fileCount := Some N,
                                    streaming := Some False\<rparr>) (messages st)\<rparr>)"
  by (simp add: handle_enhanced_def Final_def truthy_def final_updater_def [abs_def])

lemma enhanced_tokens_append:
  assumes "messages st \<noteq> []" and "answer (last (messages st)) = Some a"
  shows "\<exists>st'. for_lines_enhanced (map (Parsed \<circ> Token) ts) st = Some st'
      \<and> messages st' \<noteq> []
      \<and> answer (last (messages st')) = Some (a @ concat ts)
      \<and> butlast (messages st') = butlast (messages st)"
  using assms
proof (induction ts arbitrary: st a)
  case Nil
  then show ?case by simp
next
  case (Cons t ts)
  obtain st1 where 1: "handle_enhanced (Token t) st = Some st1" "messages st1 \<noteq> []"
    "answer (last (messages st1)) = Some (a @ t)" "butlast (messages st1) = butlast (messages st)"
    using Cons.prems
    by (cases "t = []") (auto simp: enhanced_falsy_field enhanced_Token to_string_def)
  from Cons.IH [OF 1(2,3)] obtain st' where
    2: "for_lines_enhanced (map (Parsed \<circ> Token) ts) st1 = Some st'" "messages st' \<noteq> []"
      "answer (last (messages st')) = Some ((a @ t) @ concat ts)"
      "butlast (messages st') = butlast (messages st1)"
    by blast
  have c: "for_lines_enhanced (map (Parsed \<circ> Token) (t # ts)) st = Some st'"
    using 1(1) 2(1) by simp
  have d: "answer (last (messages st')) = Some (a @ concat (t # ts))"
    using 2(3) by simp
  have e: "butlast (messages st') = butlast (messages st)"
    using 2(4) 1(4) by simp
  from c d e 2(2) show ?case by blast
qed

text \<open>
  The branch for \<open>error\<close> of part_000 shows \<open>Error: \<close> before the message and leaves no
  loop: a token on the next line of the same chunk is appended to that text.
\<close>

lemma enhanced_error_then_token:
  "sendMessage_enhanced
     (Response True [ascii ''data: {\"error\":\"boom\"}'' @ [0x0A]
                     @ ascii ''data: {\"token\":\"hi\"}'' @ [0x0A]] Closed)
     (asking (js ''q''))
     = Some \<lparr>messages = [user_message (js ''q''), assistant_message (js ''Error: boomhi'') False],
             input = [], loading = False, hasError = False\<rparr>"
  by code_simp

end
